theory Spec2Isabelle
  imports Main
begin

section \<open>Python values and exceptions\<close>

text \<open>
  The exceptions the modelled code raises or catches. A function that can raise returns
  a sum whose left injection carries the exception.
\<close>

datatype error =
    AttributeError
  | TypeError
  | KeyError
  | IndexError
  | ValueError
  | Warning
  | RecursionError
  | AssertionError
  | ExpatError string

type_synonym addr = nat

subsection \<open>Built-in string operations used by the source\<close>

text \<open>
  \<^verbatim>\<open>s.split(sep)\<close> for a one-character separator: one more segment than there are
  separators, empty segments kept.
\<close>

fun split :: "char \<Rightarrow> string \<Rightarrow> string list" where
  "split c [] = [[]]"
| "split c (x # xs) =
     (if x = c then [] # split c xs
      else (case split c xs of [] \<Rightarrow> [[x]] | w # ws \<Rightarrow> (x # w) # ws))"

text \<open>\<^verbatim>\<open>sep.join(xs)\<close>.\<close>

fun join :: "string \<Rightarrow> string list \<Rightarrow> string" where
  "join sep [] = []"
| "join sep [x] = x"
| "join sep (x # y # ys) = x @ sep @ join sep (y # ys)"

text \<open>
  \<^verbatim>\<open>xs[-d:]\<close> for \<open>d \<ge> 0\<close>: the last \<open>d\<close> elements, the whole list when
  \<open>d\<close> exceeds the length, and, since \<^verbatim>\<open>-0\<close> is \<^verbatim>\<open>0\<close>, the whole list when
  \<open>d = 0\<close>.
\<close>

definition slice_last :: "nat \<Rightarrow> 'a list \<Rightarrow> 'a list" where
  "slice_last d xs = (if d = 0 then xs else drop (length xs - d) xs)"

section \<open>Match patterns of the parse handler (\<^verbatim>\<open>_parsehandler.py\<close>)\<close>

text \<open>\<^verbatim>\<open>class _GeneratorMatch\<close>.\<close>

record generator_match =
  rooted :: bool
  elements :: "string list"
  depth :: nat
  match_string :: string

text \<open>
  \<^verbatim>\<open>_DictSAXHandler._parse_generator_matches\<close>. The split of a string is never
  empty, so \<^verbatim>\<open>parsed_match_string[0]\<close> is defined; after a leading empty segment is
  deleted the list can be empty, and then \<^verbatim>\<open>parsed_match_string[-1]\<close> raises
  IndexError.
\<close>

definition parse_generator_matches :: "string \<Rightarrow> error + generator_match" where
  "parse_generator_matches ms =
     (let parsed = split CHR ''/'' ms;
          is_rooted = (hd parsed = []);
          parsed1 = (if is_rooted then tl parsed else parsed)
      in if parsed1 = [] then Inl IndexError
         else
           let parsed2 = (if last parsed1 = [] then butlast parsed1 else parsed1)
           in if [] \<in> set parsed2 then Inl Warning
              else Inr \<lparr>rooted = is_rooted, elements = parsed2,
                        depth = length parsed2, match_string = ms\<rparr>)"

text \<open>
  The \<^verbatim>\<open>generator\<close> argument of the handler: absent, one string, or a list of
  strings.
\<close>

datatype generator_arg = GenNone | GenStr string | GenList "string list"

text \<open>
  The loop of \<^verbatim>\<open>__init__\<close> that parses the patterns in order; the first failure
  propagates.
\<close>

fun parse_all :: "string list \<Rightarrow> error + generator_match list" where
  "parse_all [] = Inr []"
| "parse_all (s # ss) =
     (case parse_generator_matches s of
        Inl e \<Rightarrow> Inl e
      | Inr m \<Rightarrow> (case parse_all ss of Inl e \<Rightarrow> Inl e | Inr ms \<Rightarrow> Inr (m # ms)))"

definition build_match_tests :: "generator_arg \<Rightarrow> error + generator_match list" where
  "build_match_tests g =
     (case g of
        GenNone \<Rightarrow> Inr []
      | GenStr s \<Rightarrow> parse_all [s]
      | GenList ss \<Rightarrow> parse_all ss)"

text \<open>
  The minimum search of \<^verbatim>\<open>__init__\<close>, starting from 1000000, and \<open>-1\<close> when
  there is no pattern.
\<close>

fun min_depth :: "int \<Rightarrow> generator_match list \<Rightarrow> int" where
  "min_depth d [] = d"
| "min_depth d (m # ms) = min_depth (if int (depth m) < d then int (depth m) else d) ms"

definition compute_match_depth :: "generator_match list \<Rightarrow> int" where
  "compute_match_depth tests = (if length tests > 0 then min_depth 1000000 tests else - 1)"

text \<open>
  The state of \<^verbatim>\<open>_DictSAXHandler\<close>. \<open>item\<close> is the reference to the node under
  construction, \<open>stack\<close> holds the references to its open ancestors. The namespace
  options are left at their defaults (\<^verbatim>\<open>namespaces=None\<close>,
  \<^verbatim>\<open>strip_namespace=False\<close>), for which \<^verbatim>\<open>_build_name\<close> returns its argument.
\<close>

record handler =
  path :: "string list"
  stack :: "addr list"
  matches :: "(string \<times> string \<times> addr) list"
  root :: addr
  item :: addr
  xml_attribs :: bool
  strip_whitespace :: bool
  match_tests :: "generator_match list"
  match_depth :: int
  in_ignore :: bool
  cdata_separator :: string
  need_cdata_separator :: bool
  processing_started :: bool

text \<open>The three tests of the loop body of \<^verbatim>\<open>_check_generator_matches\<close>.\<close>

definition match_hit :: "generator_match \<Rightarrow> string list \<Rightarrow> bool" where
  "match_hit m p =
     (if rooted m \<and> length p \<noteq> depth m then False
      else if \<not> rooted m \<and> length p < depth m then False
      else elements m = slice_last (depth m) p)"

definition joined_path :: "string list \<Rightarrow> string" where
  "joined_path p = (let s = join ''/'' ([] # p) in if s = [] then ''/'' else s)"

text \<open>The \<^verbatim>\<open>for\<close> loop with its \<^verbatim>\<open>continue\<close> and \<^verbatim>\<open>break\<close>.\<close>

fun check_loop ::
  "generator_match list \<Rightarrow> string list \<Rightarrow> addr \<Rightarrow> (string \<times> string \<times> addr) list
     \<Rightarrow> (string \<times> string \<times> addr) list" where
  "check_loop [] p it acc = acc"
| "check_loop (m # rest) p it acc =
     (if match_hit m p then acc @ [(joined_path p, match_string m, it)]
      else check_loop rest p it acc)"

definition check_generator_matches :: "handler \<Rightarrow> handler" where
  "check_generator_matches h =
     (if match_depth h > int (length (path h)) then h
      else h\<lparr>matches := check_loop (match_tests h) (path h) (item h) (matches h)\<rparr>)"


section \<open>The node model (\<^verbatim>\<open>_basenode.py\<close>, \<^verbatim>\<open>cdatanode.py\<close>, \<^verbatim>\<open>dictnode.py\<close>, \<^verbatim>\<open>listnode.py\<close>)\<close>

text \<open>
  Nodes are mutable objects that refer to each other (children, \<^verbatim>\<open>parent\<close>,
  \<^verbatim>\<open>_replacement_node\<close>), so they live in an explicit store: a node is identified by
  its address, and every method takes the store and returns the new one.

  A dictionary key is \<^verbatim>\<open>None\<close>, a string or a tuple of strings.
\<close>

datatype pykey = KNone | KStr string | KTuple "string list"

text \<open>Values that are not nodes: plain integers and plain strings.\<close>

datatype raw = PyInt int | PyStr string

datatype pyref = NodeRef addr | Raw raw

text \<open>
  The three node classes differ in the built-in type they extend:
  \<^verbatim>\<open>XMLCDATANode\<close> is a string, \<^verbatim>\<open>XMLDictNode\<close> an ordered dictionary (an
  association list, in insertion order), \<^verbatim>\<open>XMLListNode\<close> a list. The members of the
  containers are nodes (the containers are standardized).
\<close>

datatype payload =
    CDATA string
  | DictItems "(pykey \<times> addr) list"
  | ListItems "addr list"

text \<open>
  The attributes set by \<^verbatim>\<open>XMLNodeBase.__init__\<close>. For an \<^verbatim>\<open>XMLCDATANode\<close> the
  attribute \<^verbatim>\<open>text\<close> is the node itself, so its text is the string of the payload
  and the field \<open>node_text\<close> (the attribute \<^verbatim>\<open>text\<close> of the other classes) is not
  read.
\<close>

record node =
  payload :: payload
  tag :: "string option"
  key :: pykey
  xml_attrs :: "(string \<times> string) list"
  node_text :: string
  parent :: "addr option"
  replacement_node :: "pyref option"
  ignore_level :: bool

record heap =
  obj :: "addr \<Rightarrow> node"
  next_free :: addr

text \<open>
  The outcome of a method call: it returns a value or raises, and in both cases leaves a
  store behind (an exception does not undo the assignments made before it).
\<close>

datatype 'a outcome = Ok 'a heap | Raise error heap

definition upd :: "heap \<Rightarrow> addr \<Rightarrow> (node \<Rightarrow> node) \<Rightarrow> heap" where
  "upd h a f = h\<lparr>obj := (obj h)(a := f (obj h a))\<rparr>"

definition alloc :: "heap \<Rightarrow> node \<Rightarrow> addr \<times> heap" where
  "alloc h n = (next_free h, h\<lparr>obj := (obj h)(next_free h := n), next_free := Suc (next_free h)\<rparr>)"

definition set_replacement :: "heap \<Rightarrow> addr \<Rightarrow> pyref option \<Rightarrow> heap" where
  "set_replacement h a r = upd h a (\<lambda>n. n\<lparr>replacement_node := r\<rparr>)"

definition set_key :: "heap \<Rightarrow> addr \<Rightarrow> pykey \<Rightarrow> heap" where
  "set_key h a k = upd h a (\<lambda>n. n\<lparr>key := k\<rparr>)"

definition set_tag :: "heap \<Rightarrow> addr \<Rightarrow> string option \<Rightarrow> heap" where
  "set_tag h a t = upd h a (\<lambda>n. n\<lparr>tag := t\<rparr>)"

definition set_parent :: "heap \<Rightarrow> addr \<Rightarrow> addr option \<Rightarrow> heap" where
  "set_parent h a p = upd h a (\<lambda>n. n\<lparr>parent := p\<rparr>)"

definition set_payload :: "heap \<Rightarrow> addr \<Rightarrow> payload \<Rightarrow> heap" where
  "set_payload h a p = upd h a (\<lambda>n. n\<lparr>payload := p\<rparr>)"

subsection \<open>Ordered dictionaries and lists\<close>

text \<open>
  \<^verbatim>\<open>d[k] = v\<close> on an ordered dictionary keeps the position of an existing key and
  appends a new one; \<^verbatim>\<open>del d[k]\<close> removes the entry.
\<close>

fun od_set :: "'k \<Rightarrow> 'v \<Rightarrow> ('k \<times> 'v) list \<Rightarrow> ('k \<times> 'v) list" where
  "od_set k v [] = [(k, v)]"
| "od_set k v ((k', v') # kvs) = (if k' = k then (k, v) # kvs else (k', v') # od_set k v kvs)"

definition od_del :: "'k \<Rightarrow> ('k \<times> 'v) list \<Rightarrow> ('k \<times> 'v) list" where
  "od_del k kvs = filter (\<lambda>kv. fst kv \<noteq> k) kvs"

definition items :: "heap \<Rightarrow> addr \<Rightarrow> (pykey \<times> addr) list" where
  "items h a = (case payload (obj h a) of DictItems kvs \<Rightarrow> kvs | _ \<Rightarrow> [])"

definition members :: "heap \<Rightarrow> addr \<Rightarrow> addr list" where
  "members h a = (case payload (obj h a) of ListItems ms \<Rightarrow> ms | _ \<Rightarrow> [])"

definition is_list :: "heap \<Rightarrow> addr \<Rightarrow> bool" where
  "is_list h a = (case payload (obj h a) of ListItems ms \<Rightarrow> True | _ \<Rightarrow> False)"

definition is_dict :: "heap \<Rightarrow> addr \<Rightarrow> bool" where
  "is_dict h a = (case payload (obj h a) of DictItems kvs \<Rightarrow> True | _ \<Rightarrow> False)"

definition is_cdata :: "heap \<Rightarrow> addr \<Rightarrow> bool" where
  "is_cdata h a = (case payload (obj h a) of CDATA s \<Rightarrow> True | _ \<Rightarrow> False)"

text \<open>\<^verbatim>\<open>d[k] = v\<close> and \<^verbatim>\<open>del d[k]\<close> on the dictionary node \<open>d\<close>.\<close>

definition dict_set :: "heap \<Rightarrow> addr \<Rightarrow> pykey \<Rightarrow> addr \<Rightarrow> heap" where
  "dict_set h d k v = set_payload h d (DictItems (od_set k v (items h d)))"

definition dict_del :: "heap \<Rightarrow> addr \<Rightarrow> pykey \<Rightarrow> heap" where
  "dict_del h d k = set_payload h d (DictItems (od_del k (items h d)))"

text \<open>
  \<^verbatim>\<open>l[i] = v\<close>, \<^verbatim>\<open>del l[i]\<close> and \<^verbatim>\<open>l.append(v)\<close> on the list node \<open>l\<close>, for an
  index in range (the callers take the index from a scan of the list).
\<close>

definition list_set :: "heap \<Rightarrow> addr \<Rightarrow> nat \<Rightarrow> addr \<Rightarrow> heap" where
  "list_set h l i v = set_payload h l (ListItems ((members h l)[i := v]))"

definition list_del :: "heap \<Rightarrow> addr \<Rightarrow> nat \<Rightarrow> heap" where
  "list_del h l i = set_payload h l (ListItems (take i (members h l) @ drop (Suc i) (members h l)))"

definition list_append :: "heap \<Rightarrow> addr \<Rightarrow> addr \<Rightarrow> heap" where
  "list_append h l v = set_payload h l (ListItems (members h l @ [v]))"

subsection \<open>Truth value and equality of Python objects\<close>

text \<open>
  \<^verbatim>\<open>bool(x)\<close>: the node classes define neither \<^verbatim>\<open>__bool__\<close> nor \<^verbatim>\<open>__len__\<close>, so
  a node has the truth value of the string, dictionary or list it extends: false when
  empty.
\<close>

definition truthy :: "heap \<Rightarrow> pyref \<Rightarrow> bool" where
  "truthy h r =
     (case r of
        Raw (PyInt i) \<Rightarrow> i \<noteq> 0
      | Raw (PyStr s) \<Rightarrow> s \<noteq> []
      | NodeRef a \<Rightarrow>
          (case payload (obj h a) of
             CDATA s \<Rightarrow> s \<noteq> []
           | DictItems kvs \<Rightarrow> kvs \<noteq> []
           | ListItems ms \<Rightarrow> ms \<noteq> []))"

definition key_truthy :: "pykey \<Rightarrow> bool" where
  "key_truthy k = (case k of KNone \<Rightarrow> False | KStr s \<Rightarrow> s \<noteq> [] | KTuple t \<Rightarrow> t \<noteq> [])"

text \<open>
  \<^verbatim>\<open>x == y\<close> for two nodes. The node classes do not define \<^verbatim>\<open>__eq__\<close>, so the
  comparison is the one of the built-in type: strings by their characters, lists member
  by member, ordered dictionaries entry by entry and by the order of their keys; objects
  of different built-in types are unequal. Inside a container two members are first
  compared by identity. The first argument bounds the nesting of comparisons; when it is
  used up Python raises RecursionError, the result \<open>None\<close>.
\<close>

fun all_eq :: "('a \<Rightarrow> 'a \<Rightarrow> bool option) \<Rightarrow> 'a list \<Rightarrow> 'a list \<Rightarrow> bool option" where
  "all_eq f [] ys = Some True"
| "all_eq f (x # xs) [] = Some True"
| "all_eq f (x # xs) (y # ys) =
     (case f x y of None \<Rightarrow> None | Some False \<Rightarrow> Some False | Some True \<Rightarrow> all_eq f xs ys)"

fun all_values_eq ::
  "(addr \<Rightarrow> addr \<Rightarrow> bool option) \<Rightarrow> (pykey \<times> addr) list \<Rightarrow> (pykey \<times> addr) list \<Rightarrow> bool option" where
  "all_values_eq f [] other = Some True"
| "all_values_eq f ((k, v) # kvs) other =
     (case map_of other k of
        None \<Rightarrow> Some False
      | Some v' \<Rightarrow>
          (case f v v' of
             None \<Rightarrow> None
           | Some False \<Rightarrow> Some False
           | Some True \<Rightarrow> all_values_eq f kvs other))"

fun node_eq :: "nat \<Rightarrow> heap \<Rightarrow> addr \<Rightarrow> addr \<Rightarrow> bool option" where
  "node_eq 0 h a b = None"
| "node_eq (Suc n) h a b =
     (case (payload (obj h a), payload (obj h b)) of
        (CDATA s, CDATA t) \<Rightarrow> Some (s = t)
      | (ListItems xs, ListItems ys) \<Rightarrow>
          if length xs \<noteq> length ys then Some False
          else all_eq (\<lambda>x y. if x = y then Some True else node_eq n h x y) xs ys
      | (DictItems kvs, DictItems kvs') \<Rightarrow>
          if length kvs \<noteq> length kvs' then Some False
          else (case all_values_eq (\<lambda>x y. if x = y then Some True else node_eq n h x y) kvs kvs' of
                  None \<Rightarrow> None
                | Some False \<Rightarrow> Some False
                | Some True \<Rightarrow> Some (map fst kvs = map fst kvs'))
      | _ \<Rightarrow> Some False)"

text \<open>
  The default of \<^verbatim>\<open>sys.getrecursionlimit()\<close>. Python counts every frame on the stack,
  those of the caller included, so a call has at most this many nested calls left and
  fewer when it is entered from a deep stack. The public methods of the model start with
  the whole limit: a result of the model that needs a nesting close to the limit is an
  upper bound on what the code completes, and nothing is concluded below from nestings of
  that depth.
\<close>

definition recursion_limit :: nat where
  "recursion_limit = 1000"

subsection \<open>Stale nodes\<close>

text \<open>\<^verbatim>\<open>XMLNodeBase._check_replacement\<close>: the test is the truth value of the link.\<close>

definition check_replacement :: "heap \<Rightarrow> addr \<Rightarrow> error + unit" where
  "check_replacement h self =
     (case replacement_node (obj h self) of
        None \<Rightarrow> Inr ()
      | Some r \<Rightarrow> if truthy h r then Inl AttributeError else Inr ())"

text \<open>
  \<^verbatim>\<open>XMLNodeBase.get_current_node\<close>. The loop reads \<^verbatim>\<open>_replacement_node\<close> of the
  current replacement; on a value that is not a node this raises AttributeError, which
  the bare \<^verbatim>\<open>except\<close> swallows, and the method returns that value. The argument \<open>r\<close>
  is the current value of \<^verbatim>\<open>self._replacement_node\<close>. The loop need not end (a cyclic
  chain), hence the option.
\<close>

partial_function (option) follow :: "heap \<Rightarrow> addr \<Rightarrow> pyref \<Rightarrow> (pyref \<times> heap) option" where
  "follow h self r =
     (case r of
        Raw v \<Rightarrow> Some (r, h)
      | NodeRef b \<Rightarrow>
          (case replacement_node (obj h b) of
             None \<Rightarrow> Some (r, h)
           | Some r' \<Rightarrow> follow (set_replacement h self (Some r')) self r'))"

definition get_current_node :: "heap \<Rightarrow> addr \<Rightarrow> (pyref \<times> heap) option" where
  "get_current_node h self =
     (case replacement_node (obj h self) of
        None \<Rightarrow> Some (NodeRef self, h)
      | Some r \<Rightarrow> follow h self r)"

subsection \<open>Replacing a node in its parent\<close>

text \<open>
  \<^verbatim>\<open>XMLNodeBase._replace_node\<close>. Each of its two \<^verbatim>\<open>try\<close> blocks either returns
  from the method or is left (at its end, or by an exception that the bare
  \<^verbatim>\<open>except: pass\<close> swallows) with the assignments made so far.
\<close>

datatype flow = Returned heap | Continue heap

text \<open>
  \<^verbatim>\<open>for i in range(0, len(l)): if l[i] == self\<close>: the first index whose member
  compares equal to \<open>self\<close>, no index, or an exception raised by a comparison.
\<close>

datatype scan = Hit nat | Miss | Failed

fun scan_list :: "nat \<Rightarrow> heap \<Rightarrow> addr \<Rightarrow> addr list \<Rightarrow> nat \<Rightarrow> scan" where
  "scan_list n h self [] i = Miss"
| "scan_list n h self (x # xs) i =
     (case node_eq n h x self of
        None \<Rightarrow> Failed
      | Some True \<Rightarrow> Hit i
      | Some False \<Rightarrow> scan_list n h self xs (Suc i))"

text \<open>
  \<^verbatim>\<open>del l[i]\<close>, then \<^verbatim>\<open>l._replace_node(None)\<close> when the list is left empty, then
  \<^verbatim>\<open>return\<close>. The recursive call is the parameter \<open>rec\<close>; when it raises, the
  \<^verbatim>\<open>try\<close> block is left.
\<close>

definition delete_member :: "(heap \<Rightarrow> addr \<Rightarrow> unit outcome) \<Rightarrow> heap \<Rightarrow> addr \<Rightarrow> nat \<Rightarrow> flow" where
  "delete_member rec h l i =
     (let h' = list_del h l i
      in if length (members h' l) = 0
         then (case rec h' l of Ok u h'' \<Rightarrow> Returned h'' | Raise e h'' \<Rightarrow> Continue h'')
         else Returned h')"

text \<open>
  Plan A: the lookup by the expected key. \<open>None\<close> means that the plan did not
  apply and Plan B follows.
\<close>

definition plan_a :: "nat \<Rightarrow> heap \<Rightarrow> addr \<Rightarrow> addr option \<Rightarrow> addr \<Rightarrow> flow option" where
  "plan_a n h self newnode p =
     (let k = key (obj h self)
      in case map_of (items h p) k of
           None \<Rightarrow> None
         | Some v \<Rightarrow>
             (case node_eq n h v self of
                None \<Rightarrow> Some (Continue h)
              | Some False \<Rightarrow> None
              | Some True \<Rightarrow>
                  Some (Returned (case newnode of
                                    Some nn \<Rightarrow> dict_set h p k nn
                                  | None \<Rightarrow> dict_del h p k))))"

text \<open>Plan B: the scan of the entries of the parent, and of the lists among them.\<close>

fun plan_b ::
  "(heap \<Rightarrow> addr \<Rightarrow> unit outcome) \<Rightarrow> nat \<Rightarrow> heap \<Rightarrow> addr \<Rightarrow> addr option \<Rightarrow> addr
     \<Rightarrow> (pykey \<times> addr) list \<Rightarrow> flow" where
  "plan_b rec n h self newnode p [] = Continue h"
| "plan_b rec n h self newnode p ((k, v) # rest) =
     (case node_eq n h v self of
        None \<Rightarrow> Continue h
      | Some True \<Rightarrow>
          Returned (case newnode of
                      Some nn \<Rightarrow> dict_set (set_key h nn k) p k nn
                    | None \<Rightarrow> dict_del h p k)
      | Some False \<Rightarrow>
          (case payload (obj h v) of
             ListItems ms \<Rightarrow>
               (case scan_list n h self ms 0 of
                  Failed \<Rightarrow> Continue h
                | Hit i \<Rightarrow>
                    (case newnode of
                       Some nn \<Rightarrow> Returned (list_set (set_parent (set_key h nn k) nn (Some v)) v i nn)
                     | None \<Rightarrow> delete_member rec h v i)
                | Miss \<Rightarrow> plan_b rec n h self newnode p rest)
           | _ \<Rightarrow> plan_b rec n h self newnode p rest))"

text \<open>
  Case 1, for a parent that is a dictionary. On a list \<^verbatim>\<open>self.parent[self.key]\<close>
  raises TypeError or \<^verbatim>\<open>self.parent.items()\<close> raises AttributeError, on a string
  likewise; both are swallowed and nothing has been assigned.
\<close>

definition case1 ::
  "(heap \<Rightarrow> addr \<Rightarrow> unit outcome) \<Rightarrow> nat \<Rightarrow> heap \<Rightarrow> addr \<Rightarrow> addr option \<Rightarrow> addr \<Rightarrow> flow" where
  "case1 rec n h self newnode p =
     (case payload (obj h p) of
        DictItems kvs \<Rightarrow>
          (case plan_a n h self newnode p of
             Some fl \<Rightarrow> fl
           | None \<Rightarrow> plan_b rec n h self newnode p kvs)
      | _ \<Rightarrow> Continue h)"

text \<open>
  Case 2, for a parent that is a list. On a dictionary \<^verbatim>\<open>self.parent[i]\<close> raises
  KeyError (no key is an integer) or the loop is empty; on a string the assignment or
  deletion of a character raises TypeError; in each case nothing has been assigned.
\<close>

definition case2 ::
  "(heap \<Rightarrow> addr \<Rightarrow> unit outcome) \<Rightarrow> nat \<Rightarrow> heap \<Rightarrow> addr \<Rightarrow> addr option \<Rightarrow> addr \<Rightarrow> flow" where
  "case2 rec n h self newnode p =
     (case payload (obj h p) of
        ListItems ms \<Rightarrow>
          (case scan_list n h self ms 0 of
             Failed \<Rightarrow> Continue h
           | Miss \<Rightarrow> Continue h
           | Hit i \<Rightarrow>
               (case newnode of
                  Some nn \<Rightarrow> Returned (list_set h p i nn)
                | None \<Rightarrow> delete_member rec h p i))
      | _ \<Rightarrow> Continue h)"

text \<open>
  The method itself. The first argument is the number of nested calls that Python still
  allows; a call beyond it raises RecursionError. The budget and \<open>newnode\<close> come
  before the store and \<open>self\<close>, so that the recursive call
  \<^verbatim>\<open>l._replace_node(None)\<close> on a list \<open>l\<close> is \<open>replace_node n None\<close> applied to
  the store and \<open>l\<close>.
\<close>

primrec replace_node :: "nat \<Rightarrow> addr option \<Rightarrow> heap \<Rightarrow> addr \<Rightarrow> unit outcome" where
  "replace_node 0 newnode h self = Raise RecursionError h"
| "replace_node (Suc n) newnode h self =
     (case check_replacement h self of
        Inl e \<Rightarrow> Raise e h
      | Inr u \<Rightarrow>
          (case parent (obj h self) of
             None \<Rightarrow> Raise AttributeError h
           | Some p \<Rightarrow>
               (case case1 (replace_node n None) n
                       (case newnode of
                          None \<Rightarrow> h
                        | Some nn \<Rightarrow> set_replacement h self (Some (NodeRef nn)))
                       self newnode p of
                  Returned h2 \<Rightarrow> Ok () h2
                | Continue h2 \<Rightarrow>
                    (case case2 (replace_node n None) n h2 self newnode p of
                       Returned h3 \<Rightarrow> Ok () h3
                     | Continue h3 \<Rightarrow> Raise AttributeError h3))))"

subsection \<open>Construction of nodes\<close>

text \<open>
  \<^verbatim>\<open>XMLNodeBase.__init__\<close> for the three classes: the attribute dictionary is copied,
  the replacement link is \<^verbatim>\<open>None\<close>.
\<close>

definition key_of_tag :: "string option \<Rightarrow> pykey" where
  "key_of_tag t = (case t of None \<Rightarrow> KNone | Some s \<Rightarrow> KStr s)"

definition new_cdata ::
  "string \<Rightarrow> string option \<Rightarrow> pykey \<Rightarrow> addr option \<Rightarrow> (string \<times> string) list \<Rightarrow> node" where
  "new_cdata s t k p attrs =
     \<lparr>payload = CDATA s, tag = t, key = k, xml_attrs = attrs, node_text = [],
      parent = p, replacement_node = None, ignore_level = False\<rparr>"

definition new_dict ::
  "(pykey \<times> addr) list \<Rightarrow> string option \<Rightarrow> pykey \<Rightarrow> addr option \<Rightarrow> string
     \<Rightarrow> (string \<times> string) list \<Rightarrow> node" where
  "new_dict kvs t k p txt attrs =
     \<lparr>payload = DictItems kvs, tag = t, key = k, xml_attrs = attrs, node_text = txt,
      parent = p, replacement_node = None, ignore_level = False\<rparr>"

definition new_list :: "addr list \<Rightarrow> string option \<Rightarrow> pykey \<Rightarrow> addr option \<Rightarrow> node" where
  "new_list ms t k p =
     \<lparr>payload = ListItems ms, tag = t, key = k, xml_attrs = [], node_text = [],
      parent = p, replacement_node = None, ignore_level = False\<rparr>"

subsection \<open>Character data\<close>

text \<open>\<^verbatim>\<open>get_cdata\<close>: the string itself for an \<^verbatim>\<open>XMLCDATANode\<close>, \<^verbatim>\<open>self.text\<close> otherwise.\<close>

definition get_cdata :: "heap \<Rightarrow> addr \<Rightarrow> string" where
  "get_cdata h self = (case payload (obj h self) of CDATA s \<Rightarrow> s | _ \<Rightarrow> node_text (obj h self))"

text \<open>
  \<^verbatim>\<open>XMLCDATANode.set_cdata\<close>: a new node takes the place of this one. The result is
  the new node when \<^verbatim>\<open>return_node\<close> is set and \<^verbatim>\<open>None\<close> otherwise.
\<close>

definition XMLCDATANode_set_cdata :: "heap \<Rightarrow> addr \<Rightarrow> string \<Rightarrow> bool \<Rightarrow> addr option outcome" where
  "XMLCDATANode_set_cdata h self cdata return_node =
     (case check_replacement h self of
        Inl e \<Rightarrow> Raise e h
      | Inr u \<Rightarrow>
          (case alloc h (new_cdata cdata (tag (obj h self)) (key (obj h self))
                           (parent (obj h self)) (xml_attrs (obj h self))) of
             (newnode, h1) \<Rightarrow>
               (case replace_node recursion_limit (Some newnode) h1 self of
                  Raise e h2 \<Rightarrow> Raise e h2
                | Ok u h2 \<Rightarrow> Ok (if return_node then Some newnode else None) h2)))"

text \<open>\<^verbatim>\<open>XMLNodeBase.set_cdata\<close>, for the two container classes: in place.\<close>

definition XMLNodeBase_set_cdata :: "heap \<Rightarrow> addr \<Rightarrow> string \<Rightarrow> bool \<Rightarrow> addr option outcome" where
  "XMLNodeBase_set_cdata h self cdata return_node =
     (case check_replacement h self of
        Inl e \<Rightarrow> Raise e h
      | Inr u \<Rightarrow>
          Ok (if return_node then Some self else None)
             (upd h self (\<lambda>n. n\<lparr>node_text := cdata\<rparr>)))"

definition set_cdata :: "heap \<Rightarrow> addr \<Rightarrow> string \<Rightarrow> bool \<Rightarrow> addr option outcome" where
  "set_cdata h self cdata return_node =
     (case payload (obj h self) of
        CDATA s \<Rightarrow> XMLCDATANode_set_cdata h self cdata return_node
      | _ \<Rightarrow> XMLNodeBase_set_cdata h self cdata return_node)"

definition XMLCDATANode_append_cdata :: "heap \<Rightarrow> addr \<Rightarrow> string \<Rightarrow> bool \<Rightarrow> addr option outcome" where
  "XMLCDATANode_append_cdata h self cdata return_node =
     (case check_replacement h self of
        Inl e \<Rightarrow> Raise e h
      | Inr u \<Rightarrow> XMLCDATANode_set_cdata h self (get_cdata h self @ cdata) return_node)"

definition XMLNodeBase_append_cdata :: "heap \<Rightarrow> addr \<Rightarrow> string \<Rightarrow> bool \<Rightarrow> addr option outcome" where
  "XMLNodeBase_append_cdata h self cdata return_node =
     (case check_replacement h self of
        Inl e \<Rightarrow> Raise e h
      | Inr u \<Rightarrow>
          Ok (if return_node then Some self else None)
             (upd h self (\<lambda>n. n\<lparr>node_text := node_text n @ cdata\<rparr>)))"

definition append_cdata :: "heap \<Rightarrow> addr \<Rightarrow> string \<Rightarrow> bool \<Rightarrow> addr option outcome" where
  "append_cdata h self cdata return_node =
     (case payload (obj h self) of
        CDATA s \<Rightarrow> XMLCDATANode_append_cdata h self cdata return_node
      | _ \<Rightarrow> XMLNodeBase_append_cdata h self cdata return_node)"

text \<open>
  \<^verbatim>\<open>str.strip(chars)\<close>: with \<^verbatim>\<open>None\<close> the white space characters are stripped,
  otherwise the characters of \<^verbatim>\<open>chars\<close>. A character of the model is a code point
  below 256; the white space characters among these, in the sense of
  \<^verbatim>\<open>str.isspace\<close>, are those of ASCII, U+0085 and U+00A0. Strings with code points
  from 256 on are outside the model.
\<close>

definition is_space :: "char \<Rightarrow> bool" where
  "is_space c = (c \<in> set [CHR '' '', CHR 0x09, CHR 0x0A, CHR 0x0B, CHR 0x0C, CHR 0x0D,
                          CHR 0x1C, CHR 0x1D, CHR 0x1E, CHR 0x1F, CHR 0x85, CHR 0xA0])"

definition strip :: "string option \<Rightarrow> string \<Rightarrow> string" where
  "strip chars s =
     (let drop_it = (case chars of None \<Rightarrow> is_space | Some cs \<Rightarrow> (\<lambda>c. c \<in> set cs))
      in rev (dropWhile drop_it (rev (dropWhile drop_it s))))"

definition strip_cdata :: "heap \<Rightarrow> addr \<Rightarrow> string option \<Rightarrow> bool \<Rightarrow> addr option outcome" where
  "strip_cdata h self chars return_node =
     (case check_replacement h self of
        Inl e \<Rightarrow> Raise e h
      | Inr u \<Rightarrow> set_cdata h self (strip chars (get_cdata h self)) return_node)"

subsection \<open>XML attributes\<close>

definition has_xml_attrs :: "heap \<Rightarrow> addr \<Rightarrow> bool" where
  "has_xml_attrs h self = (length (xml_attrs (obj h self)) > 0)"

definition set_xml_attr :: "heap \<Rightarrow> addr \<Rightarrow> string \<Rightarrow> string \<Rightarrow> unit outcome" where
  "set_xml_attr h self attr val =
     (case check_replacement h self of
        Inl e \<Rightarrow> Raise e h
      | Inr u \<Rightarrow> Ok () (upd h self (\<lambda>n. n\<lparr>xml_attrs := od_set attr val (xml_attrs n)\<rparr>)))"

text \<open>\<^verbatim>\<open>get_xml_attr\<close>; \<open>defval = None\<close> stands for the absent default.\<close>

definition get_xml_attr :: "heap \<Rightarrow> addr \<Rightarrow> string \<Rightarrow> string option \<Rightarrow> error + string" where
  "get_xml_attr h self attr defval =
     (case map_of (xml_attrs (obj h self)) attr of
        Some v \<Rightarrow> Inr v
      | None \<Rightarrow> (case defval of Some d \<Rightarrow> Inr d | None \<Rightarrow> Inl KeyError))"

definition get_xml_attrs :: "heap \<Rightarrow> addr \<Rightarrow> (string \<times> string) list" where
  "get_xml_attrs h self = xml_attrs (obj h self)"

definition delete_xml_attr :: "heap \<Rightarrow> addr \<Rightarrow> string \<Rightarrow> unit outcome" where
  "delete_xml_attr h self attr =
     (case check_replacement h self of
        Inl e \<Rightarrow> Raise e h
      | Inr u \<Rightarrow>
          (case map_of (xml_attrs (obj h self)) attr of
             None \<Rightarrow> Raise KeyError h
           | Some v \<Rightarrow> Ok () (upd h self (\<lambda>n. n\<lparr>xml_attrs := od_del attr (xml_attrs n)\<rparr>))))"

subsection \<open>Adding a child\<close>

text \<open>
  The second half of \<^verbatim>\<open>XMLDictNode.add_node\<close>: an entry that exists and is not a list
  is wrapped in a new list, the new node is appended to the list of the entry; a new key
  gets the node itself.
\<close>

definition store_child :: "heap \<Rightarrow> addr \<Rightarrow> string option \<Rightarrow> pykey \<Rightarrow> addr \<Rightarrow> bool \<Rightarrow> heap" where
  "store_child h self t k new_node update =
     (case map_of (items h self) k of
        Some old_node \<Rightarrow>
          (case (if \<not> is_list h old_node
                 then (case alloc h (new_list [old_node] t k (Some self)) of
                         (l, h1) \<Rightarrow>
                           (l, if update then set_parent (dict_set h1 self k l) old_node (Some l)
                               else dict_set h1 self k l))
                 else (old_node, h)) of
             (l, h2) \<Rightarrow> list_append (if update then set_parent h2 new_node (Some l) else h2) l new_node)
      | None \<Rightarrow> dict_set (if update then set_parent h new_node (Some self) else h) self k new_node)"

text \<open>
  \<^verbatim>\<open>XMLDictNode.add_node(tag, key, text, new_node, update, xml_attrs=...)\<close>. A
  \<^verbatim>\<open>new_node\<close> that is not a node raises TypeError.
\<close>

definition XMLDictNode_add_node ::
  "heap \<Rightarrow> addr \<Rightarrow> string option \<Rightarrow> pykey \<Rightarrow> string \<Rightarrow> pyref option \<Rightarrow> bool
     \<Rightarrow> (string \<times> string) list \<Rightarrow> addr outcome" where
  "XMLDictNode_add_node h self t k txt new_node update attrs =
     (case check_replacement h self of
        Inl e \<Rightarrow> Raise e h
      | Inr u \<Rightarrow>
          (case new_node of
             None \<Rightarrow>
               (case alloc h (new_cdata txt t (key_of_tag t) None attrs) of
                  (nn, h1) \<Rightarrow>
                    if key_truthy k
                    then Ok nn (store_child (if update then set_key h1 nn k else h1) self t k nn update)
                    else Ok nn (store_child h1 self t (key_of_tag t) nn update))
           | Some (Raw v) \<Rightarrow> Raise TypeError h
           | Some (NodeRef nn) \<Rightarrow>
               (case (if key_truthy k then (k, if update then set_key h nn k else h)
                      else if key_truthy (key (obj h nn)) then (key (obj h nn), h)
                      else (key_of_tag t, h)) of
                  (k', h1) \<Rightarrow>
                    Ok nn (store_child (if update then set_tag h1 nn t else h1) self t k' nn update))))"

text \<open>
  \<^verbatim>\<open>XMLCDATANode.add_node\<close>: the node becomes a dictionary, which gets the child and
  then replaces the node.
\<close>

definition XMLCDATANode_add_node ::
  "heap \<Rightarrow> addr \<Rightarrow> string option \<Rightarrow> pykey \<Rightarrow> string \<Rightarrow> pyref option \<Rightarrow> bool
     \<Rightarrow> (string \<times> string) list \<Rightarrow> addr outcome" where
  "XMLCDATANode_add_node h self t k txt new_node update attrs =
     (case check_replacement h self of
        Inl e \<Rightarrow> Raise e h
      | Inr u \<Rightarrow>
          (case alloc h (new_dict [] (tag (obj h self)) (key (obj h self)) (parent (obj h self))
                           (get_cdata h self) (xml_attrs (obj h self))) of
             (newnode, h1) \<Rightarrow>
               (case XMLDictNode_add_node h1 newnode t k txt new_node update attrs of
                  Raise e h2 \<Rightarrow> Raise e h2
                | Ok rv h2 \<Rightarrow>
                    (case replace_node recursion_limit (Some newnode) h2 self of
                       Raise e h3 \<Rightarrow> Raise e h3
                     | Ok u h3 \<Rightarrow> Ok rv h3))))"

text \<open>\<^verbatim>\<open>XMLListNode.add_node\<close> always raises.\<close>

definition XMLListNode_add_node :: "heap \<Rightarrow> addr \<Rightarrow> addr outcome" where
  "XMLListNode_add_node h self =
     (case check_replacement h self of
        Inl e \<Rightarrow> Raise e h
      | Inr u \<Rightarrow> Raise TypeError h)"

definition add_node ::
  "heap \<Rightarrow> addr \<Rightarrow> string option \<Rightarrow> pykey \<Rightarrow> string \<Rightarrow> pyref option \<Rightarrow> bool
     \<Rightarrow> (string \<times> string) list \<Rightarrow> addr outcome" where
  "add_node h self t k txt new_node update attrs =
     (case payload (obj h self) of
        CDATA s \<Rightarrow> XMLCDATANode_add_node h self t k txt new_node update attrs
      | DictItems kvs \<Rightarrow> XMLDictNode_add_node h self t k txt new_node update attrs
      | ListItems ms \<Rightarrow> XMLListNode_add_node h self)"

subsection \<open>Turning a node into a list\<close>

text \<open>
  \<^verbatim>\<open>XMLNodeBase.list(in_place=True)\<close> on a node that is not a list: a new list with
  this node as its member takes its place; the node stays current.
  \<^verbatim>\<open>XMLListNode.list\<close> returns the list itself.
\<close>

definition list_in_place :: "heap \<Rightarrow> addr \<Rightarrow> addr outcome" where
  "list_in_place h self =
     (case payload (obj h self) of
        ListItems ms \<Rightarrow> Ok self h
      | _ \<Rightarrow>
          (case alloc h (new_list [self] (tag (obj h self)) (key (obj h self)) (parent (obj h self))) of
             (new_node, h1) \<Rightarrow>
               (case replace_node recursion_limit (Some new_node) h1 self of
                  Raise e h2 \<Rightarrow> Raise e h2
                | Ok u h2 \<Rightarrow>
                    Ok new_node
                      (set_parent
                         (set_key (set_replacement h2 self None) self
                            (key (obj (set_replacement h2 self None) new_node)))
                         self (Some new_node)))))"

section \<open>The serializer (\<^verbatim>\<open>emit_handler\<close>)\<close>

text \<open>The calls made on the content handler, in order.\<close>

datatype sax_call =
    StartDocument
  | EndDocument
  | StartElement "string option" "(string \<times> string) list"
  | Characters string
  | EndElement "string option"
  | IgnorableWhitespace string

text \<open>\<^verbatim>\<open>len(node)\<close>: the length of the string, dictionary or list.\<close>

definition node_len :: "heap \<Rightarrow> addr \<Rightarrow> nat" where
  "node_len h a =
     (case payload (obj h a) of
        CDATA s \<Rightarrow> length s
      | DictItems kvs \<Rightarrow> length kvs
      | ListItems ms \<Rightarrow> length ms)"

text \<open>
  The loop shared by \<^verbatim>\<open>XMLListNode._emit_handler\<close> and the pass-through branch of
  \<^verbatim>\<open>XMLDictNode._emit_handler\<close>: the children one after the other, separated by a
  new line when \<open>sep\<close> holds (\<^verbatim>\<open>pretty and depth == 0\<close>).
\<close>

fun emit_all ::
  "(addr \<Rightarrow> error + sax_call list) \<Rightarrow> bool \<Rightarrow> string \<Rightarrow> bool \<Rightarrow> addr list
     \<Rightarrow> error + sax_call list" where
  "emit_all f sep newl first_element [] = Inr []"
| "emit_all f sep newl first_element (c # cs) =
     (case f c of
        Inl e \<Rightarrow> Inl e
      | Inr out \<Rightarrow>
          (case emit_all f sep newl False cs of
             Inl e \<Rightarrow> Inl e
           | Inr rest \<Rightarrow>
               Inr ((if sep \<and> \<not> first_element then [IgnorableWhitespace newl] else [])
                    @ out @ rest)))"

text \<open>
  \<^verbatim>\<open>_emit_handler\<close> of the three classes. The first argument bounds the nesting of
  calls, as for \<open>replace_node\<close>; \<open>lvl\<close> is the argument \<^verbatim>\<open>depth\<close>, and
  \<^verbatim>\<open>depth * indent\<close> is the indentation string repeated.
\<close>

primrec emit_node ::
  "nat \<Rightarrow> heap \<Rightarrow> bool \<Rightarrow> string \<Rightarrow> string \<Rightarrow> nat \<Rightarrow> addr \<Rightarrow> error + sax_call list" where
  "emit_node 0 h pretty newl indent lvl self = Inl RecursionError"
| "emit_node (Suc n) h pretty newl indent lvl self =
     (case payload (obj h self) of
        CDATA s \<Rightarrow>
          Inr ((if pretty then [IgnorableWhitespace (concat (replicate lvl indent))] else [])
               @ [StartElement (tag (obj h self)) (xml_attrs (obj h self)),
                  Characters s,
                  EndElement (tag (obj h self))]
               @ (if pretty \<and> lvl > 0 then [IgnorableWhitespace newl] else []))
      | ListItems ms \<Rightarrow>
          emit_all (emit_node n h pretty newl indent lvl) (pretty \<and> lvl = 0) newl True ms
      | DictItems kvs \<Rightarrow>
          if (tag (obj h self) = None \<and> lvl = 0) \<or> ignore_level (obj h self)
          then emit_all (emit_node n h pretty newl indent lvl) (pretty \<and> lvl = 0) newl True
                 (map snd kvs)
          else
            (case emit_all (emit_node n h pretty newl indent (Suc lvl)) False newl True
                    (map snd kvs) of
               Inl e \<Rightarrow> Inl e
             | Inr inner \<Rightarrow>
                 Inr ((if pretty then [IgnorableWhitespace (concat (replicate lvl indent))] else [])
                      @ [StartElement (tag (obj h self)) (xml_attrs (obj h self))]
                      @ (if pretty \<and> length kvs > 0 then [IgnorableWhitespace newl] else [])
                      @ inner
                      @ [Characters (strip None (node_text (obj h self)))]
                      @ (if pretty \<and> length kvs > 0
                         then [IgnorableWhitespace (concat (replicate lvl indent))] else [])
                      @ [EndElement (tag (obj h self))]
                      @ (if pretty \<and> lvl > 0 then [IgnorableWhitespace newl] else []))))"

text \<open>
  The \<^verbatim>\<open>while\<close> loop of \<^verbatim>\<open>emit_handler\<close> that decides whether the tree may be a
  full document, descending through tagless dictionaries and lists with one member. It
  returns \<^verbatim>\<open>full_document_ok\<close> and the node reached. A node that contains itself
  keeps the loop running for ever, hence the option.
\<close>

partial_function (option) full_document_check :: "heap \<Rightarrow> addr \<Rightarrow> (bool \<times> addr) option" where
  "full_document_check h curnode =
     (case payload (obj h curnode) of
        CDATA s \<Rightarrow> Some (True, curnode)
      | ListItems ms \<Rightarrow>
          if length ms > 1 then Some (False, curnode)
          else (case ms of [] \<Rightarrow> Some (True, curnode) | c # cs \<Rightarrow> full_document_check h c)
      | DictItems kvs \<Rightarrow>
          (case kvs of
             [] \<Rightarrow> Some (True, curnode)
           | kv # rest \<Rightarrow>
               if tag (obj h curnode) = None
               then (if length kvs > 1 then Some (False, curnode)
                     else full_document_check h (snd kv))
               else Some (True, curnode)))"

declare full_document_check.simps [code]

declare follow.simps [code]

text \<open>
  \<^verbatim>\<open>emit_handler(content_handler, pretty, newl, indent, full_document)\<close>: the calls
  received by the content handler, or the exception; \<open>None\<close> when the loop above does
  not end.
\<close>

definition emit_handler ::
  "heap \<Rightarrow> addr \<Rightarrow> bool \<Rightarrow> string \<Rightarrow> string \<Rightarrow> bool option \<Rightarrow> (error + sax_call list) option" where
  "emit_handler h self pretty newl indent full_document =
     (case full_document_check h self of
        None \<Rightarrow> None
      | Some (full_document_ok, curnode) \<Rightarrow>
          (case (case full_document of
                   Some fd \<Rightarrow> if fd \<and> \<not> full_document_ok then Inl ValueError else Inr fd
                 | None \<Rightarrow>
                     Inr (if full_document_ok
                          then (case parent (obj h self) of
                                  None \<Rightarrow> True
                                | Some p \<Rightarrow>
                                    \<not> (tag (obj h self) \<noteq> None
                                       \<and> (tag (obj h p) \<noteq> None \<or> node_len h p > 1)))
                          else False)) of
             Inl e \<Rightarrow> Some (Inl e)
           | Inr fd \<Rightarrow>
               (case emit_node recursion_limit h pretty newl indent 0 curnode of
                  Inl e \<Rightarrow> Some (Inl e)
                | Inr out \<Rightarrow>
                    Some (Inr ((if fd then [StartDocument] else []) @ out
                               @ (if fd then [EndDocument] else []))))))"

text \<open>The number of elements that a sequence of calls opens outside any other element.\<close>

fun top_level_elements :: "nat \<Rightarrow> sax_call list \<Rightarrow> nat" where
  "top_level_elements d [] = 0"
| "top_level_elements d (StartElement t a # cs) =
     (if d = 0 then 1 else 0) + top_level_elements (Suc d) cs"
| "top_level_elements d (EndElement t # cs) = top_level_elements (d - 1) cs"
| "top_level_elements d (c # cs) = top_level_elements d cs"

section \<open>The tree builder and the parser driver (\<^verbatim>\<open>_parsehandler.py\<close>, \<^verbatim>\<open>xmlparser.py\<close>)\<close>

subsection \<open>Construction of the handler\<close>

text \<open>
  The keyword arguments of \<^verbatim>\<open>Parser\<close> that reach \<^verbatim>\<open>_DictSAXHandler.__init__\<close>.
\<close>

record kwargs =
  kw_xml_attribs :: bool
  kw_strip_whitespace :: bool
  kw_cdata_separator :: string
  kw_generator :: generator_arg

text \<open>
  \<^verbatim>\<open>_DictSAXHandler.__init__\<close>: the root \<^verbatim>\<open>XMLDictNode()\<close> is created first, then the
  patterns are parsed, which can raise.
\<close>

definition DictSAXHandler_init :: "heap \<Rightarrow> kwargs \<Rightarrow> handler outcome" where
  "DictSAXHandler_init h kw =
     (case alloc h (new_dict [] None KNone None [] []) of
        (r, h1) \<Rightarrow>
          (case build_match_tests (kw_generator kw) of
             Inl e \<Rightarrow> Raise e h1
           | Inr tests \<Rightarrow>
               Ok \<lparr>path = [], stack = [], matches = [], root = r, item = r,
                   xml_attribs = kw_xml_attribs kw,
                   strip_whitespace = kw_strip_whitespace kw,
                   match_tests = tests, match_depth = compute_match_depth tests,
                   in_ignore = (compute_match_depth tests > 0),
                   cdata_separator = kw_cdata_separator kw,
                   need_cdata_separator = False, processing_started = False\<rparr> h1))"

subsection \<open>The callbacks\<close>

text \<open>
  A callback changes the handler and the heap and may raise; the handler is an object, so
  what a callback has written before it raises stays written.
\<close>

type_synonym callback = "handler \<times> heap \<times> error option"

text \<open>
  \<^verbatim>\<open>_attrs_to_dict\<close> on the pairs \<^verbatim>\<open>zip(attrs[0::2], attrs[1::2])\<close> of the ordered
  attribute list of the tokenizer.
\<close>

definition attrs_to_dict :: "(string \<times> string) list \<Rightarrow> (string \<times> string) list" where
  "attrs_to_dict attrs = foldl (\<lambda>d kv. od_set (fst kv) (snd kv) d) [] attrs"

text \<open>
  \<^verbatim>\<open>start_element\<close>. The reference pushed on the stack is the result of
  \<^verbatim>\<open>get_current_node\<close>, which for a node built by the handler is a node; for a
  value that is not a node the model raises AttributeError, the error of the first
  method call on such a value.
\<close>

definition start_element ::
  "handler \<Rightarrow> heap \<Rightarrow> string \<Rightarrow> (string \<times> string) list \<Rightarrow> callback option" where
  "start_element hdl h full_name attrs =
     (let hdl1 = hdl\<lparr>processing_started := True, path := path hdl @ [full_name]\<rparr>;
          attrs1 = (if xml_attribs hdl1 then attrs_to_dict attrs else [])
      in case (if in_ignore hdl1 \<and> int (length (path hdl1)) \<ge> match_depth hdl1
               then (case alloc h (new_dict [] None KNone None [] []) of
                       (r, h1) \<Rightarrow> (hdl1\<lparr>item := r, in_ignore := False\<rparr>, h1))
               else (hdl1, h)) of
           (hdl2, h2) \<Rightarrow>
             if \<not> in_ignore hdl2
             then (case add_node h2 (item hdl2) (Some full_name) KNone [] None True attrs1 of
                     Raise e h3 \<Rightarrow> Some (hdl2, h3, Some e)
                   | Ok newnode h3 \<Rightarrow>
                       (case get_current_node h3 (item hdl2) of
                          None \<Rightarrow> None
                        | Some (Raw v, h4) \<Rightarrow> Some (hdl2, h4, Some AttributeError)
                        | Some (NodeRef cur, h4) \<Rightarrow>
                            Some (hdl2\<lparr>stack := stack hdl2 @ [cur], item := newnode,
                                       need_cdata_separator := False\<rparr>, h4, None)))
             else Some (hdl2, h2, None))"

text \<open>
  \<^verbatim>\<open>end_element\<close>. \<^verbatim>\<open>pop\<close> of an empty list raises IndexError. With
  \<^verbatim>\<open>return_node=True\<close> the result of \<^verbatim>\<open>strip_cdata\<close> is a node; the case of
  \<^verbatim>\<open>None\<close> is there to make the case distinction complete.
\<close>

definition end_element :: "handler \<Rightarrow> heap \<Rightarrow> string \<Rightarrow> callback" where
  "end_element hdl h full_name =
     (case (if \<not> in_ignore hdl
            then (case (if strip_whitespace hdl
                        then (case strip_cdata h (item hdl) None True of
                                Raise e h1 \<Rightarrow> (hdl, h1, Some e)
                              | Ok None h1 \<Rightarrow> (hdl, h1, Some AttributeError)
                              | Ok (Some n) h1 \<Rightarrow> (hdl\<lparr>item := n\<rparr>, h1, None))
                        else (hdl, h, None)) of
                    (hdl1, h1, Some e) \<Rightarrow> (hdl1, h1, Some e)
                  | (hdl1, h1, None) \<Rightarrow>
                      (let hdl2 = check_generator_matches hdl1
                       in if stack hdl2 = [] then (hdl2, h1, Some IndexError)
                          else (hdl2\<lparr>item := last (stack hdl2), stack := butlast (stack hdl2)\<rparr>,
                                h1, None)))
            else (hdl, h, None)) of
        (hdl3, h3, Some e) \<Rightarrow> (hdl3, h3, Some e)
      | (hdl3, h3, None) \<Rightarrow>
          if path hdl3 = [] then (hdl3, h3, Some IndexError)
          else (let hdl4 = hdl3\<lparr>path := butlast (path hdl3)\<rparr>;
                    hdl5 = (if int (length (path hdl4)) < match_depth hdl4
                           then hdl4\<lparr>in_ignore := True\<rparr> else hdl4)
                in (if \<not> in_ignore hdl5 \<and> length (get_cdata h3 (item hdl5)) > 0
                    then hdl5\<lparr>need_cdata_separator := True\<rparr> else hdl5, h3, None)))"

text \<open>\<^verbatim>\<open>characters\<close>.\<close>

definition characters :: "handler \<Rightarrow> heap \<Rightarrow> string \<Rightarrow> callback" where
  "characters hdl h data =
     (let hdl1 = hdl\<lparr>processing_started := True\<rparr>
      in if \<not> in_ignore hdl1
         then (let data1 = (if need_cdata_separator hdl1 then cdata_separator hdl1 @ data
                            else data);
                   hdl2 = (if need_cdata_separator hdl1 then hdl1\<lparr>need_cdata_separator := False\<rparr>
                          else hdl1)
               in case append_cdata h (item hdl2) data1 True of
                    Raise e h1 \<Rightarrow> (hdl2, h1, Some e)
                  | Ok None h1 \<Rightarrow> (hdl2, h1, Some AttributeError)
                  | Ok (Some n) h1 \<Rightarrow> (hdl2\<lparr>item := n\<rparr>, h1, None))
         else (hdl1, h, None))"

text \<open>\<^verbatim>\<open>end_document\<close>: the assertion, then a last match check.\<close>

definition end_document :: "handler \<Rightarrow> handler \<times> error option" where
  "end_document hdl =
     (if length (path hdl) = 0 then (check_generator_matches hdl, None)
      else (hdl, Some AssertionError))"

text \<open>\<^verbatim>\<open>pop_matches\<close>: the matches collected so far, and the handler without them.\<close>

definition pop_matches :: "handler \<Rightarrow> (string \<times> string \<times> addr) list \<times> handler" where
  "pop_matches hdl = (matches hdl, hdl\<lparr>matches := []\<rparr>)"

subsection \<open>The tokenizer\<close>

text \<open>
  The tokenizer is \<^verbatim>\<open>xml.parsers.expat\<close>, which is not part of the repository. What
  one call of \<^verbatim>\<open>Parse\<close> does is given to the model: the calls of the three registered
  callbacks, in order, and the message of the \<^verbatim>\<open>ExpatError\<close> it ends with, if any.
  An exception of a callback ends the call.
\<close>

datatype expat_event =
    StartElementEvent string "(string \<times> string) list"
  | EndElementEvent string
  | CharacterDataEvent string

record parse_call =
  events :: "expat_event list"
  expat_error :: "string option"

fun deliver :: "handler \<Rightarrow> heap \<Rightarrow> expat_event list \<Rightarrow> callback option" where
  "deliver hdl h [] = Some (hdl, h, None)"
| "deliver hdl h (ev # evs) =
     (case (case ev of
              StartElementEvent n a \<Rightarrow> start_element hdl h n a
            | EndElementEvent n \<Rightarrow> Some (end_element hdl h n)
            | CharacterDataEvent d \<Rightarrow> Some (characters hdl h d)) of
        None \<Rightarrow> None
      | Some (hdl1, h1, Some e) \<Rightarrow> Some (hdl1, h1, Some e)
      | Some (hdl1, h1, None) \<Rightarrow> deliver hdl1 h1 evs)"

definition Parse :: "handler \<Rightarrow> heap \<Rightarrow> parse_call \<Rightarrow> callback option" where
  "Parse hdl h c =
     (case deliver hdl h (events c) of
        None \<Rightarrow> None
      | Some (hdl1, h1, Some e) \<Rightarrow> Some (hdl1, h1, Some e)
      | Some (hdl1, h1, None) \<Rightarrow> Some (hdl1, h1, map_option ExpatError (expat_error c)))"

text \<open>
  The test of the two \<^verbatim>\<open>except expat.ExpatError\<close> blocks on the message of the error.
  \<open>errors\<close> is \<^verbatim>\<open>expat.errors.XML_ERROR_NO_ELEMENTS\<close>, and \<^verbatim>\<open>None\<close> when the module
  has no such attribute.
\<close>

definition startswith :: "string \<Rightarrow> string \<Rightarrow> bool" where
  "startswith s p = (take (length p) s = p)"

definition no_elements_reported :: "string option \<Rightarrow> string \<Rightarrow> bool" where
  "no_elements_reported errors msg =
     (case errors of None \<Rightarrow> False | Some c \<Rightarrow> startswith msg (c @ '':''))"

subsection \<open>The two modes of \<^verbatim>\<open>Parser.__call__\<close>\<close>

text \<open>The truth value of the \<^verbatim>\<open>generator\<close> argument selects the mode.\<close>

definition generator_truthy :: "generator_arg \<Rightarrow> bool" where
  "generator_truthy g =
     (case g of GenNone \<Rightarrow> False | GenStr s \<Rightarrow> s \<noteq> [] | GenList ss \<Rightarrow> ss \<noteq> [])"

text \<open>
  Without patterns: one call of \<^verbatim>\<open>Parse\<close> on the whole input, and the result is
  \<^verbatim>\<open>self._handler.item\<close>.
\<close>

definition parse_tree :: "string option \<Rightarrow> handler \<Rightarrow> heap \<Rightarrow> parse_call \<Rightarrow> addr outcome option" where
  "parse_tree errors hdl h c =
     (case Parse hdl h c of
        None \<Rightarrow> None
      | Some (hdl1, h1, None) \<Rightarrow> Some (Ok (item hdl1) h1)
      | Some (hdl1, h1, Some e) \<Rightarrow>
          (case e of
             ExpatError msg \<Rightarrow>
               if no_elements_reported errors msg \<and> \<not> processing_started hdl1
               then Some (Ok (item hdl1) h1)
               else Some (Raise e h1)
           | _ \<Rightarrow> Some (Raise e h1)))"

text \<open>
  \<^verbatim>\<open>_parse_generator\<close>, the iterations of the loop before the end of the input: any
  exception propagates, the matches of each call are yielded after it.
\<close>

fun parse_chunks ::
  "handler \<Rightarrow> heap \<Rightarrow> parse_call list
     \<Rightarrow> ((string \<times> string \<times> addr) list \<times> handler \<times> heap \<times> error option) option" where
  "parse_chunks hdl h [] = Some ([], hdl, h, None)"
| "parse_chunks hdl h (c # cs) =
     (case Parse hdl h c of
        None \<Rightarrow> None
      | Some (hdl1, h1, Some e) \<Rightarrow> Some ([], hdl1, h1, Some e)
      | Some (hdl1, h1, None) \<Rightarrow>
          (case pop_matches hdl1 of
             (rv, hdl2) \<Rightarrow>
               (case parse_chunks hdl2 h1 cs of
                  None \<Rightarrow> None
                | Some (ys, hdl3, h3, err) \<Rightarrow> Some (rv @ ys, hdl3, h3, err))))"

text \<open>
  The last iteration, with \<^verbatim>\<open>at_eof\<close> set, and the whole generator: the matches it
  yields, in order, and the exception that ends it, if any.
\<close>

definition suppressed :: "string option \<Rightarrow> handler \<Rightarrow> error \<Rightarrow> bool" where
  "suppressed errors hdl e =
     (case e of
        ExpatError msg \<Rightarrow> no_elements_reported errors msg \<and> \<not> processing_started hdl
      | _ \<Rightarrow> False)"

definition parse_generator ::
  "string option \<Rightarrow> handler \<Rightarrow> heap \<Rightarrow> parse_call list \<Rightarrow> parse_call
     \<Rightarrow> ((string \<times> string \<times> addr) list \<times> error option \<times> heap) option" where
  "parse_generator errors hdl h chunks final =
     (case parse_chunks hdl h chunks of
        None \<Rightarrow> None
      | Some (ys, hdl1, h1, Some e) \<Rightarrow> Some (ys, Some e, h1)
      | Some (ys, hdl1, h1, None) \<Rightarrow>
          (case Parse hdl1 h1 final of
             None \<Rightarrow> None
           | Some (hdl2, h2, err) \<Rightarrow>
               if (case err of None \<Rightarrow> True | Some e \<Rightarrow> suppressed errors hdl2 e)
               then (case end_document hdl2 of
                       (hdl3, Some e) \<Rightarrow> Some (ys, Some e, h2)
                     | (hdl3, None) \<Rightarrow> Some (ys @ fst (pop_matches hdl3), None, h2))
               else Some (ys, err, h2)))"

text \<open>
  \<^verbatim>\<open>Parser(**kwargs)(xml_input)\<close>. The behaviour of the tokenizer on the input is given
  for both ways of feeding it: \<open>whole\<close> for the single call of the full-tree mode,
  \<open>reads\<close> for the calls on the non-empty reads of the generator mode and
  \<open>at_end\<close> for its final call.
\<close>

record tokenizer_run =
  whole :: parse_call
  reads :: "parse_call list"
  at_end :: parse_call

datatype parse_result =
    Raised error heap
  | Tree addr heap
  | Generator "(string \<times> string \<times> addr) list" "error option" heap

definition parse ::
  "string option \<Rightarrow> kwargs \<Rightarrow> heap \<Rightarrow> tokenizer_run \<Rightarrow> parse_result option" where
  "parse errors kw h run =
     (case DictSAXHandler_init h kw of
        Raise e h1 \<Rightarrow> Some (Raised e h1)
      | Ok hdl h1 \<Rightarrow>
          if generator_truthy (kw_generator kw)
          then (case parse_generator errors hdl h1 (reads run) (at_end run) of
                  None \<Rightarrow> None
                | Some (ys, err, h2) \<Rightarrow> Some (Generator ys err h2))
          else (case parse_tree errors hdl h1 (whole run) of
                  None \<Rightarrow> None
                | Some (Raise e h2) \<Rightarrow> Some (Raised e h2)
                | Some (Ok t h2) \<Rightarrow> Some (Tree t h2)))"

section \<open>Notions used to state the properties\<close>

text \<open>The store that a call leaves behind, whether it returned or raised.\<close>

fun outcome_heap :: "'a outcome \<Rightarrow> heap" where
  "outcome_heap (Ok v h) = h"
| "outcome_heap (Raise e h) = h"

fun flow_heap :: "flow \<Rightarrow> heap" where
  "flow_heap (Returned h) = h"
| "flow_heap (Continue h) = h"

text \<open>
  Two stores agree on the allocation pointer and, for every node, on the replacement
  link, the class, the XML attributes, the text and, for an \<^verbatim>\<open>XMLCDATANode\<close>, the
  string.
\<close>

definition frame :: "heap \<Rightarrow> heap \<Rightarrow> bool" where
  "frame h h' \<longleftrightarrow>
     next_free h' = next_free h
     \<and> (\<forall>x. replacement_node (obj h' x) = replacement_node (obj h x)
            \<and> is_cdata h' x = is_cdata h x
            \<and> is_dict h' x = is_dict h x
            \<and> is_list h' x = is_list h x
            \<and> xml_attrs (obj h' x) = xml_attrs (obj h x)
            \<and> node_text (obj h' x) = node_text (obj h x)
            \<and> (is_cdata h x \<longrightarrow> payload (obj h' x) = payload (obj h x)))"

text \<open>
  \<open>rchain h r as e\<close>: following the replacement links from the reference \<open>r\<close>
  visits the nodes \<open>as\<close> and ends in \<open>e\<close>, which is the last node visited (its
  link is \<^verbatim>\<open>None\<close>) or a value that is not a node.
\<close>

fun rchain :: "heap \<Rightarrow> pyref \<Rightarrow> addr list \<Rightarrow> pyref \<Rightarrow> bool" where
  "rchain h r [] e = (e = r \<and> (case r of Raw v \<Rightarrow> True | NodeRef b \<Rightarrow> False))"
| "rchain h r (a # as) e =
     (r = NodeRef a \<and>
      (case replacement_node (obj h a) of
         None \<Rightarrow> as = [] \<and> e = NodeRef a
       | Some r' \<Rightarrow> rchain h r' as e))"

text \<open>
  A run of \<^verbatim>\<open>node = node.set_cdata(s, True)\<close> and
  \<^verbatim>\<open>node = node.append_cdata(s, True)\<close> statements, each applied to the node that the
  previous one returned; the result lists the nodes returned.
\<close>

datatype cdata_op = SetCdata string | AppendCdata string

definition run_op :: "heap \<Rightarrow> addr \<Rightarrow> cdata_op \<Rightarrow> addr option outcome" where
  "run_op h a op =
     (case op of
        SetCdata s \<Rightarrow> set_cdata h a s True
      | AppendCdata s \<Rightarrow> append_cdata h a s True)"

fun apply_ops :: "heap \<Rightarrow> addr \<Rightarrow> cdata_op list \<Rightarrow> addr list outcome" where
  "apply_ops h a [] = Ok [] h"
| "apply_ops h a (op # ops) =
     (case run_op h a op of
        Raise e h' \<Rightarrow> Raise e h'
      | Ok None h' \<Rightarrow> Raise AttributeError h'
      | Ok (Some b) h' \<Rightarrow>
          (case apply_ops h' b ops of
             Raise e h'' \<Rightarrow> Raise e h''
           | Ok bs h'' \<Rightarrow> Ok (b # bs) h''))"

text \<open>The patterns that the \<^verbatim>\<open>generator\<close> argument holds.\<close>

definition patterns :: "generator_arg \<Rightarrow> string list" where
  "patterns g = (case g of GenNone \<Rightarrow> [] | GenStr s \<Rightarrow> [s] | GenList ss \<Rightarrow> ss)"

text \<open>
  The events that count as content: the two callbacks that set
  \<^verbatim>\<open>processing_started\<close>.
\<close>

definition is_content :: "expat_event \<Rightarrow> bool" where
  "is_content ev = (case ev of EndElementEvent n \<Rightarrow> False | _ \<Rightarrow> True)"

section \<open>Example states\<close>

text \<open>Concrete patterns and handler states at which the theorems below are instantiated.\<close>

definition bc_pattern :: generator_match where
  "bc_pattern = \<lparr>rooted = False, elements = [''b'', ''c''], depth = 2, match_string = ''b/c''\<rparr>"

definition bc_handler :: handler where
  "bc_handler = \<lparr>path = [''a'', ''b'', ''c''], stack = [3, 5], matches = [], root = 0,
     item = 7, xml_attribs = True, strip_whitespace = True,
     match_tests = [bc_pattern], match_depth = 2, in_ignore = False,
     cdata_separator = [], need_cdata_separator = False, processing_started = True\<rparr>"

definition c_pattern :: generator_match where
  "c_pattern = \<lparr>rooted = False, elements = [''c''], depth = 1, match_string = ''c''\<rparr>"

definition c_bc_handler :: handler where
  "c_bc_handler = \<lparr>path = [''a'', ''b'', ''c''], stack = [3, 5], matches = [], root = 0,
     item = 7, xml_attribs = True, strip_whitespace = True,
     match_tests = [c_pattern, bc_pattern], match_depth = 1, in_ignore = False,
     cdata_separator = [], need_cdata_separator = False, processing_started = True\<rparr>"


definition blank :: node where
  "blank = new_dict [] None KNone None [] []"

definition foo_heap :: heap where
  "foo_heap =
     \<lparr>obj = (\<lambda>_. blank)
        (0 := new_dict [(KStr ''a'', 1)] None KNone None [] [],
         1 := new_cdata ''foo'' (Some ''a'') (KStr ''a'') (Some 0) []),
      next_free = 2\<rparr>"

definition hi_heap :: heap where
  "hi_heap =
     \<lparr>obj = (\<lambda>_. blank)
        (0 := new_dict [(KStr ''a'', 2)] None KNone None [] [],
         1 := (new_cdata ''foo'' (Some ''a'') (KStr ''a'') (Some 0) [])
                \<lparr>replacement_node := Some (NodeRef 2)\<rparr>,
         2 := (new_cdata ''foobar'' (Some ''a'') (KStr ''a'') (Some 0) [])
                \<lparr>replacement_node := Some (Raw (PyStr ''hi''))\<rparr>),
      next_free = 3\<rparr>"

definition bar_baz :: "cdata_op list" where
  "bar_baz = [AppendCdata ''bar'', AppendCdata ''baz'']"

definition bar_heap :: heap where
  "bar_heap = outcome_heap (set_cdata foo_heap 1 ''bar'' True)"

definition id_heap :: heap where
  "id_heap =
     \<lparr>obj = (\<lambda>_. blank)
        (0 := new_dict [(KStr ''a'', 1)] None KNone None [] [],
         1 := new_cdata ''foo'' (Some ''a'') (KStr ''a'') (Some 0) [(''id'', ''1'')]),
      next_free = 2\<rparr>"

definition id_heap_after :: heap where
  "id_heap_after = outcome_heap (XMLCDATANode_set_cdata id_heap 1 ''bar'' True)"

definition emptied_heap :: heap where
  "emptied_heap = outcome_heap (set_cdata foo_heap 1 [] True)"

text \<open>
  The key under which \<^verbatim>\<open>XMLDictNode.add_node\<close> stores the child: the \<^verbatim>\<open>key\<close>
  argument when it is true, else the key of \<^verbatim>\<open>new_node\<close> when that is true, else the
  tag.
\<close>

definition add_key :: "heap \<Rightarrow> pykey \<Rightarrow> string option \<Rightarrow> pyref option \<Rightarrow> pykey" where
  "add_key h k t new_node =
     (if key_truthy k then k
      else (case new_node of
              Some (NodeRef x) \<Rightarrow> if key_truthy (key (obj h x)) then key (obj h x) else key_of_tag t
            | _ \<Rightarrow> key_of_tag t))"

definition b_heap0 :: heap where
  "b_heap0 = \<lparr>obj = (\<lambda>_. blank), next_free = 1\<rparr>"

definition b_heap1 :: heap where
  "b_heap1 = outcome_heap (add_node b_heap0 0 (Some ''b'') KNone ''1'' None True [])"

definition b_heap2 :: heap where
  "b_heap2 = outcome_heap (add_node b_heap1 0 (Some ''b'') KNone ''2'' None True [])"

definition b_heap3 :: heap where
  "b_heap3 = outcome_heap (add_node b_heap2 0 (Some ''b'') KNone ''3'' None True [])"

definition l_heap0 :: heap where
  "l_heap0 = \<lparr>obj = (\<lambda>_. blank)(1 := new_list [] (Some ''k'') (KStr ''k'') None), next_free = 2\<rparr>"

definition l_heap1 :: heap where
  "l_heap1 = outcome_heap (add_node l_heap0 0 (Some ''k'') KNone [] (Some (NodeRef 1)) True [])"

definition l_heap2 :: heap where
  "l_heap2 = outcome_heap (add_node l_heap1 0 (Some ''k'') KNone [] None True [])"

definition twin_heap1 :: heap where
  "twin_heap1 =
     outcome_heap (add_node b_heap0 0 (Some ''b'') KNone ''x'' None True [(''id'', ''1'')])"

definition twin_heap :: heap where
  "twin_heap =
     outcome_heap (add_node twin_heap1 0 (Some ''b'') KNone ''x'' None True [(''id'', ''2'')])"

definition twin_heap_after :: heap where
  "twin_heap_after = outcome_heap (replace_node recursion_limit None twin_heap 2)"

definition solo_heap :: heap where
  "solo_heap =
     \<lparr>obj = (\<lambda>_. blank)
        (0 := new_dict [(KStr ''b'', 1)] (Some ''a'') (KStr ''a'') None [] [],
         1 := new_list [2] (Some ''b'') (KStr ''b'') (Some 0),
         2 := new_cdata ''x'' (Some ''b'') (KStr ''b'') (Some 1) []),
      next_free = 3\<rparr>"

definition solo_heap_after :: heap where
  "solo_heap_after = outcome_heap (replace_node recursion_limit None solo_heap 2)"

definition keyed_heap :: heap where
  "keyed_heap =
     \<lparr>obj = (\<lambda>_. blank)
        (0 := new_list [1, 2] (Some ''b'') (KStr ''b'') None,
         1 := new_cdata ''x'' (Some ''b'') (KStr ''b'') (Some 0) [],
         2 := new_cdata ''y'' (Some ''b'') (KStr ''b'') (Some 0) [],
         3 := (new_dict [(KStr ''x'', 1), (KStr ''y'', 2)] (Some ''b'') (KStr ''b'') None [] [])
                \<lparr>ignore_level := True\<rparr>),
      next_free = 4\<rparr>"

text \<open>
  The empty document: a store without nodes, the store with the root of the handler, and
  the tokenizer raising the error ``no element found'' without a callback, on the whole
  input as on the final call after no read.
\<close>

definition start_heap :: heap where
  "start_heap = \<lparr>obj = (\<lambda>_. blank), next_free = 0\<rparr>"

definition root_heap :: heap where
  "root_heap = \<lparr>obj = (\<lambda>_. blank), next_free = 1\<rparr>"

definition no_elements_call :: parse_call where
  "no_elements_call = \<lparr>events = [], expat_error = Some ''no element found: line 1, column 0''\<rparr>"

definition empty_document :: tokenizer_run where
  "empty_document = \<lparr>whole = no_elements_call, reads = [], at_end = no_elements_call\<rparr>"

text \<open>
  The document \<^verbatim>\<open><a>\<close>: one start tag, and the same kind of error at the end of the
  input.
\<close>

definition unclosed_call :: parse_call where
  "unclosed_call = \<lparr>events = [StartElementEvent ''a'' []],
                     expat_error = Some ''no element found: line 1, column 3''\<rparr>"

definition unclosed_document :: tokenizer_run where
  "unclosed_document =
     \<lparr>whole = unclosed_call,
      reads = [\<lparr>events = [StartElementEvent ''a'' []], expat_error = None\<rparr>],
      at_end = \<lparr>events = [], expat_error = Some ''no element found: line 1, column 3''\<rparr>\<rparr>"

definition kwargs_of :: "generator_arg \<Rightarrow> kwargs" where
  "kwargs_of g = \<lparr>kw_xml_attribs = True, kw_strip_whitespace = True, kw_cdata_separator = [],
                  kw_generator = g\<rparr>"

section \<open>Properties of the match patterns\<close>

lemma split_nonempty: "split c s \<noteq> []"
  by (induction s) (auto split: list.splits)

lemma hd_split_empty: "(hd (split c s) = []) = (s = [] \<or> hd s = c)"
  by (cases s) (auto split: list.splits simp: split_nonempty)

lemma length_split_ge2: "ms \<noteq> [] \<Longrightarrow> length (split c ms) \<ge> 2 \<or> hd (split c ms) \<noteq> []"
  by (cases ms) (auto split: list.splits simp: split_nonempty Suc_le_eq)

lemma parse_Inr_props:
  assumes "parse_generator_matches ms = Inr m"
  shows "depth m = length (elements m)" "match_string m = ms"
    "rooted m = (take 1 ms = ''/'')" "\<not> rooted m \<Longrightarrow> elements m \<noteq> []"
    "[] \<notin> set (elements m)"
proof -
  let ?p = "split CHR ''/'' ms"
  let ?p1 = "if hd ?p = [] then tl ?p else ?p"
  let ?p2 = "if last ?p1 = [] then butlast ?p1 else ?p1"
  from assms have ne: "?p1 \<noteq> []" and nw: "[] \<notin> set ?p2"
    and m: "m = \<lparr>rooted = (hd ?p = []), elements = ?p2, depth = length ?p2, match_string = ms\<rparr>"
    by (auto simp: parse_generator_matches_def Let_def split: if_splits)
  show "depth m = length (elements m)" "match_string m = ms" using m by simp_all
  show "[] \<notin> set (elements m)" using nw m by simp
  have "ms \<noteq> []" using ne by (cases ms) auto
  then show "rooted m = (take 1 ms = ''/'')"
    using m hd_split_empty[of "CHR ''/''" ms] by (cases ms) auto
  show "elements m \<noteq> []" if "\<not> rooted m"
  proof -
    from that m have h: "hd ?p \<noteq> []" by simp
    have "?p \<noteq> []" by (rule split_nonempty)
    then obtain a as where pa: "?p = a # as" by (cases ?p) auto
    with h have an: "a \<noteq> []" by simp
    show ?thesis
    proof (cases as)
      case Nil
      with pa an m show ?thesis by simp
    next
      case (Cons b bs)
      with pa m an show ?thesis by (auto split: if_splits)
    qed
  qed
qed

lemma joined_path_eq: "joined_path p = CHR ''/'' # join ''/'' p"
  by (cases p) (auto simp: joined_path_def Let_def)

lemma match_hit_rooted:
  "rooted m \<Longrightarrow> depth m = length (elements m) \<Longrightarrow> match_hit m p = (p = elements m)"
  by (auto simp: match_hit_def slice_last_def)

lemma match_hit_suffix:
  "\<not> rooted m \<Longrightarrow> depth m = length (elements m) \<Longrightarrow> elements m \<noteq> [] \<Longrightarrow>
   match_hit m p =
     (length (elements m) \<le> length p \<and> drop (length p - length (elements m)) p = elements m)"
  by (auto simp: match_hit_def slice_last_def)

lemma match_hit_len: "match_hit m p \<Longrightarrow> depth m \<le> length p"
  by (auto simp: match_hit_def split: if_splits)

lemma min_depth_le: "min_depth d ts \<le> d"
proof (induction ts arbitrary: d)
  case Nil
  then show ?case by simp
next
  case (Cons a ts)
  have "min_depth (if int (depth a) < d then int (depth a) else d) ts
          \<le> (if int (depth a) < d then int (depth a) else d)"
    by (rule Cons.IH)
  then show ?case by (auto split: if_splits)
qed

lemma min_depth_le_mem: "m \<in> set ts \<Longrightarrow> min_depth d ts \<le> int (depth m)"
proof (induction ts arbitrary: d)
  case Nil
  then show ?case by simp
next
  case (Cons a ts)
  show ?case
  proof (cases "m = a")
    case True
    have "min_depth (if int (depth a) < d then int (depth a) else d) ts
            \<le> (if int (depth a) < d then int (depth a) else d)"
      by (rule min_depth_le)
    then show ?thesis using True by (auto split: if_splits)
  next
    case False
    with Cons show ?thesis by auto
  qed
qed

lemma check_loop_find:
  "check_loop ts p it acc =
     acc @ (case find (\<lambda>m. match_hit m p) ts of
              None \<Rightarrow> []
            | Some m \<Rightarrow> [(joined_path p, match_string m, it)])"
  by (induction ts) auto

text \<open>
  C4. A handler configured with the single pattern string \<open>ms\<close>, whose parse is
  \<open>m\<close>, at any path: the match check appends a tuple exactly when, for a string that
  begins with \<open>/\<close>, the path has the length of the segment list and equals it, and,
  for a string without a leading \<open>/\<close>, the path is at least as long as the segment
  list and its last segments equal it. The tuple carries \<open>/\<close> followed by the path
  segments joined by \<open>/\<close> (which is \<open>/\<close> alone at the document root), the
  pattern string and the current node.
\<close>

theorem check_generator_matches_single_pattern:
  assumes "parse_generator_matches ms = Inr m"
    and "match_tests h = [m]"
    and "match_depth h = compute_match_depth (match_tests h)"
  shows "matches (check_generator_matches h) =
     matches h @
       (if (if take 1 ms = ''/''
            then length (path h) = length (elements m) \<and> path h = elements m
            else length (path h) \<ge> length (elements m)
               \<and> drop (length (path h) - length (elements m)) (path h) = elements m)
        then [(CHR ''/'' # join ''/'' (path h), ms, item h)] else [])"
proof -
  note P = parse_Inr_props[OF assms(1)]
  have md: "match_depth h = min 1000000 (int (depth m))"
    using assms(2,3) by (simp add: compute_match_depth_def)
  show ?thesis
  proof (cases "rooted m")
    case True
    then show ?thesis
      using P(1,2,3) md assms(2) match_hit_rooted[of m "path h"]
      by (auto simp: check_generator_matches_def joined_path_eq)
  next
    case False
    then show ?thesis
      using P md assms(2) match_hit_suffix[of m "path h"]
      by (auto simp: check_generator_matches_def joined_path_eq)
  qed
qed

theorem check_generator_matches_single_pattern_witness:
  "parse_generator_matches ''b/c'' = Inr bc_pattern
   \<and> match_tests bc_handler = [bc_pattern]
   \<and> match_depth bc_handler = compute_match_depth (match_tests bc_handler)
   \<and> matches (check_generator_matches bc_handler) = [(''/a/b/c'', ''b/c'', 7)]"
proof -
  have p: "parse_generator_matches ''b/c'' = Inr bc_pattern"
    by (simp add: parse_generator_matches_def bc_pattern_def)
  have t: "match_tests bc_handler = [bc_pattern]"
    by (simp add: bc_handler_def)
  have d: "match_depth bc_handler = compute_match_depth (match_tests bc_handler)"
    by (simp add: bc_handler_def bc_pattern_def compute_match_depth_def)
  show ?thesis
    using p t d check_generator_matches_single_pattern[OF p t d]
    by (simp add: bc_handler_def bc_pattern_def)
qed

text \<open>
  C5. For every handler whose \<open>match_depth\<close> is the one computed from its pattern
  list, one match check appends at most one tuple: the tuple of the first pattern, in
  declaration order, that matches the path, tagged with that pattern's string; the
  patterns after it are not consulted. When no pattern matches nothing is appended.
\<close>

theorem check_generator_matches_first_match:
  assumes "match_depth h = compute_match_depth (match_tests h)"
  shows "matches (check_generator_matches h) =
     matches h @
       (case find (\<lambda>m. match_hit m (path h)) (match_tests h) of
          None \<Rightarrow> []
        | Some m \<Rightarrow> [(joined_path (path h), match_string m, item h)])
     \<and> length (matches (check_generator_matches h)) \<le> Suc (length (matches h))"
proof -
  have nohit: "find (\<lambda>m. match_hit m (path h)) (match_tests h) = None"
    if gt: "match_depth h > int (length (path h))"
  proof -
    have "\<not> match_hit m (path h)" if mem: "m \<in> set (match_tests h)" for m
    proof
      assume "match_hit m (path h)"
      then have "depth m \<le> length (path h)" by (rule match_hit_len)
      moreover have "match_depth h \<le> int (depth m)"
        using assms mem min_depth_le_mem[OF mem, of 1000000]
        by (auto simp: compute_match_depth_def split: if_splits)
      ultimately show False using gt by simp
    qed
    then show ?thesis by (simp add: find_None_iff)
  qed
  have eq: "matches (check_generator_matches h) =
     matches h @
       (case find (\<lambda>m. match_hit m (path h)) (match_tests h) of
          None \<Rightarrow> []
        | Some m \<Rightarrow> [(joined_path (path h), match_string m, item h)])"
    using nohit by (auto simp: check_generator_matches_def check_loop_find)
  then have "length (matches (check_generator_matches h)) \<le> Suc (length (matches h))"
    by (auto split: option.splits)
  with eq show ?thesis by simp
qed

theorem check_generator_matches_first_match_witness:
  "build_match_tests (GenList [''c'', ''b/c'']) = Inr (match_tests c_bc_handler)
   \<and> match_depth c_bc_handler = compute_match_depth (match_tests c_bc_handler)
   \<and> match_hit c_pattern (path c_bc_handler) \<and> match_hit bc_pattern (path c_bc_handler)
   \<and> matches (check_generator_matches c_bc_handler) = [(''/a/b/c'', ''c'', 7)]"
proof -
  have d: "match_depth c_bc_handler = compute_match_depth (match_tests c_bc_handler)"
    by (simp add: c_bc_handler_def c_pattern_def bc_pattern_def compute_match_depth_def)
  have b: "build_match_tests (GenList [''c'', ''b/c'']) = Inr (match_tests c_bc_handler)"
    by (simp add: build_match_tests_def parse_generator_matches_def c_bc_handler_def
        c_pattern_def bc_pattern_def)
  show ?thesis
    using b d check_generator_matches_first_match[OF d]
    by (simp add: c_bc_handler_def c_pattern_def bc_pattern_def match_hit_def
        slice_last_def joined_path_def)
qed

lemma filter_nonempty_id: "[] \<notin> set xs \<Longrightarrow> filter (\<lambda>s. s \<noteq> []) xs = xs"
  by (induction xs) auto

lemma interior_cases:
  fixes segs :: "string list"
  assumes "segs \<noteq> []" "length segs \<ge> 2 \<or> hd segs \<noteq> []"
  defines "p1 \<equiv> (if hd segs = [] then tl segs else segs)"
  defines "p2 \<equiv> (if last p1 = [] then butlast p1 else p1)"
  shows "p1 \<noteq> []" "([] \<in> set p2) = ([] \<in> set (butlast (tl segs)))"
    "[] \<notin> set p2 \<Longrightarrow> p2 = filter (\<lambda>s. s \<noteq> []) segs"
proof -
  obtain a as where sa: "segs = a # as" using assms(1) by (cases segs) auto
  show "p1 \<noteq> []" using assms(2) sa by (cases as) (auto simp: p1_def)
  show "([] \<in> set p2) = ([] \<in> set (butlast (tl segs)))"
  proof (cases as rule: rev_cases)
    case Nil
    then show ?thesis using sa assms(2) by (auto simp: p1_def p2_def)
  next
    case (snoc bs b)
    then show ?thesis using sa by (auto simp: p1_def p2_def butlast_append)
  qed
  show "p2 = filter (\<lambda>s. s \<noteq> []) segs" if "[] \<notin> set p2"
  proof (cases as rule: rev_cases)
    case Nil
    then show ?thesis using sa assms(2) that by (auto simp: p1_def p2_def)
  next
    case (snoc bs b)
    then show ?thesis using sa that
      by (auto simp: p1_def p2_def butlast_append filter_nonempty_id split: if_splits)
  qed
qed

text \<open>
  C7, as the code has it. The claim that every pattern made only of empty segments is
  rejected fails at \<open>/\<close>, which is accepted as the anchored pattern of depth 0.
\<close>

theorem parse_generator_matches_slash_accepted:
  "parse_generator_matches ''/'' =
     Inr \<lparr>rooted = True, elements = [], depth = 0, match_string = ''/''\<rparr>
   \<and> build_match_tests (GenList [''/'']) =
     Inr [\<lparr>rooted = True, elements = [], depth = 0, match_string = ''/''\<rparr>]"
  by (simp add: parse_generator_matches_def build_match_tests_def)

text \<open>
  C7, amended. For every non-empty pattern string, parsing it raises Warning exactly
  when a segment that is neither the first nor the last is empty (so \<open>//\<close>,
  \<open>///\<close> and \<open>a//b\<close> are rejected); otherwise the pattern is accepted, a leading
  \<open>/\<close> only marking it as anchored and a single trailing \<open>/\<close> being dropped, its
  segment list being the non-empty segments.
\<close>

theorem parse_generator_matches_warning_iff:
  assumes "ms \<noteq> []"
  shows "(parse_generator_matches ms = Inl Warning)
           = ([] \<in> set (butlast (tl (split CHR ''/'' ms))))
    \<and> ([] \<notin> set (butlast (tl (split CHR ''/'' ms))) \<longrightarrow>
         parse_generator_matches ms =
           Inr \<lparr>rooted = (hd ms = CHR ''/''),
                elements = filter (\<lambda>s. s \<noteq> []) (split CHR ''/'' ms),
                depth = length (filter (\<lambda>s. s \<noteq> []) (split CHR ''/'' ms)),
                match_string = ms\<rparr>)"
proof -
  let ?segs = "split CHR ''/'' ms"
  note I = interior_cases[OF split_nonempty length_split_ge2[OF assms], of "CHR ''/''"]
  have r: "(hd ?segs = []) = (hd ms = CHR ''/'')"
    using assms by (simp add: hd_split_empty)
  show ?thesis
    using I r unfolding parse_generator_matches_def Let_def
    by (auto split: if_splits)
qed

theorem parse_generator_matches_warning_iff_witness:
  "''/a/b/'' \<noteq> [] \<and> [] \<notin> set (butlast (tl (split CHR ''/'' ''/a/b/'')))
   \<and> parse_generator_matches ''/a/b/'' =
       Inr \<lparr>rooted = True, elements = [''a'', ''b''], depth = 2, match_string = ''/a/b/''\<rparr>
   \<and> ''a//b'' \<noteq> [] \<and> [] \<in> set (butlast (tl (split CHR ''/'' ''a//b'')))
   \<and> parse_generator_matches ''a//b'' = Inl Warning"
  using parse_generator_matches_warning_iff[of "''/a/b/''"]
    parse_generator_matches_warning_iff[of "''a//b''"]
  by simp

section \<open>Properties of the node model\<close>

subsection \<open>What \<^verbatim>\<open>_replace_node\<close> leaves unchanged\<close>

lemma frame_refl [simp]: "frame h h"
  by (simp add: frame_def)

lemma frame_trans: "frame h h1 \<Longrightarrow> frame h1 h2 \<Longrightarrow> frame h h2"
  by (simp add: frame_def)

lemma frame_set_key [simp]: "frame h (set_key h a k)"
  by (simp add: frame_def set_key_def upd_def is_cdata_def is_dict_def is_list_def)

lemma frame_set_parent [simp]: "frame h (set_parent h a p)"
  by (simp add: frame_def set_parent_def upd_def is_cdata_def is_dict_def is_list_def)

lemma frame_set_tag [simp]: "frame h (set_tag h a p)"
  by (simp add: frame_def set_tag_def upd_def is_cdata_def is_dict_def is_list_def)

lemma frame_dict_payload: "is_dict h d \<Longrightarrow> frame h (set_payload h d (DictItems kvs))"
  by (auto simp: frame_def set_payload_def upd_def is_cdata_def is_dict_def is_list_def
      split: payload.splits)

lemma frame_list_payload: "is_list h l \<Longrightarrow> frame h (set_payload h l (ListItems ms))"
  by (auto simp: frame_def set_payload_def upd_def is_cdata_def is_dict_def is_list_def
      split: payload.splits)

lemma frame_dict_set: "is_dict h d \<Longrightarrow> frame h (dict_set h d k v)"
  by (simp add: dict_set_def frame_dict_payload)

lemma frame_dict_del: "is_dict h d \<Longrightarrow> frame h (dict_del h d k)"
  by (simp add: dict_del_def frame_dict_payload)

lemma frame_list_set: "is_list h l \<Longrightarrow> frame h (list_set h l i v)"
  by (simp add: list_set_def frame_list_payload)

lemma frame_list_del: "is_list h l \<Longrightarrow> frame h (list_del h l i)"
  by (simp add: list_del_def frame_list_payload)

lemma frame_is_dict: "frame h h' \<Longrightarrow> is_dict h' x = is_dict h x"
  and frame_is_list: "frame h h' \<Longrightarrow> is_list h' x = is_list h x"
  and frame_is_cdata: "frame h h' \<Longrightarrow> is_cdata h' x = is_cdata h x"
  and frame_repl: "frame h h' \<Longrightarrow> replacement_node (obj h' x) = replacement_node (obj h x)"
  and frame_next: "frame h h' \<Longrightarrow> next_free h' = next_free h"
  and frame_attrs: "frame h h' \<Longrightarrow> xml_attrs (obj h' x) = xml_attrs (obj h x)"
  and frame_text: "frame h h' \<Longrightarrow> node_text (obj h' x) = node_text (obj h x)"
  and frame_cdata_payload: "frame h h' \<Longrightarrow> is_cdata h x \<Longrightarrow> payload (obj h' x) = payload (obj h x)"
  by (simp_all add: frame_def)

lemma delete_member_frame:
  assumes "\<And>h' l. frame h' (outcome_heap (rec h' l))" "is_list h l"
  shows "frame h (flow_heap (delete_member rec h l i))"
proof -
  have f1: "frame h (list_del h l i)" using assms(2) by (rule frame_list_del)
  show ?thesis
    using f1 frame_trans[OF f1 assms(1)[of "list_del h l i" l]]
    by (auto simp: delete_member_def Let_def split: outcome.splits)
qed

lemma plan_a_frame:
  "is_dict h p \<Longrightarrow> plan_a n h self newnode p = Some fl \<Longrightarrow> frame h (flow_heap fl)"
  by (auto simp: plan_a_def Let_def frame_dict_set frame_dict_del
      split: option.splits bool.splits)

lemma plan_b_frame:
  assumes "\<And>h' l. frame h' (outcome_heap (rec h' l))" "is_dict h p"
  shows "frame h (flow_heap (plan_b rec n h self newnode p kvs))"
proof (induction kvs)
  case Nil
  then show ?case by simp
next
  case (Cons kv kvs)
  obtain k v where kv: "kv = (k, v)" by (cases kv)
  have d1: "frame h (dict_set (set_key h nn k) p k nn)" for nn
  proof -
    have "is_dict (set_key h nn k) p" using assms(2) frame_is_dict[OF frame_set_key] by simp
    then have "frame (set_key h nn k) (dict_set (set_key h nn k) p k nn)" by (rule frame_dict_set)
    then show ?thesis using frame_trans frame_set_key by blast
  qed
  have l1: "frame h (list_set (set_parent (set_key h nn k) nn (Some v)) v i nn)"
    if "is_list h v" for nn i
  proof -
    let ?h1 = "set_parent (set_key h nn k) nn (Some v)"
    have f: "frame h ?h1" using frame_trans frame_set_key frame_set_parent by blast
    then have "is_list ?h1 v" using that frame_is_list by blast
    then have "frame ?h1 (list_set ?h1 v i nn)" by (rule frame_list_set)
    with f show ?thesis using frame_trans by blast
  qed
  have dm: "frame h (flow_heap (delete_member rec h v i))" if "is_list h v" for i
    using delete_member_frame[OF assms(1) that] .
  show ?case
    using Cons.IH d1 l1 dm frame_dict_del[OF assms(2)]
    by (auto simp: kv is_list_def split: option.splits bool.splits payload.splits scan.splits)
qed

lemma case1_frame:
  assumes "\<And>h' l. frame h' (outcome_heap (rec h' l))"
  shows "frame h (flow_heap (case1 rec n h self newnode p))"
  using plan_b_frame[OF assms, of h p] plan_a_frame[of h p n self newnode]
  by (auto simp: case1_def is_dict_def split: payload.splits option.splits)

lemma case2_frame:
  assumes "\<And>h' l. frame h' (outcome_heap (rec h' l))"
  shows "frame h (flow_heap (case2 rec n h self newnode p))"
  using delete_member_frame[OF assms, of h p] frame_list_set[of h p]
  by (auto simp: case2_def is_list_def split: payload.splits option.splits scan.splits)

lemma replace_node_None_frame: "frame h (outcome_heap (replace_node n None h self))"
proof (induction n arbitrary: h self)
  case 0
  then show ?case by simp
next
  case (Suc n)
  let ?rec = "replace_node n None"
  have r: "\<And>h' l. frame h' (outcome_heap (?rec h' l))" by (rule Suc.IH)
  show ?case
  proof (cases "check_replacement h self")
    case (Inl e) then show ?thesis by simp
  next
    case (Inr u)
    show ?thesis
    proof (cases "parent (obj h self)")
      case None with Inr show ?thesis by simp
    next
      case (Some p)
      have c1: "frame h (flow_heap (case1 ?rec n h self None p))" by (rule case1_frame[OF r])
      show ?thesis
      proof (cases "case1 ?rec n h self None p")
        case (Returned h2)
        with c1 Inr Some show ?thesis by simp
      next
        case (Continue h2)
        with c1 have f2: "frame h h2" by simp
        have c2: "frame h2 (flow_heap (case2 ?rec n h2 self None p))" by (rule case2_frame[OF r])
        with f2 have "frame h (flow_heap (case2 ?rec n h2 self None p))" by (rule frame_trans)
        with Inr Some Continue show ?thesis by (auto split: flow.splits)
      qed
    qed
  qed
qed

lemma replace_node_Some_frame:
  assumes "replace_node n (Some nn) h self = Ok u h'"
  shows "frame (set_replacement h self (Some (NodeRef nn))) h'"
proof (cases n)
  case 0
  with assms show ?thesis by simp
next
  case (Suc m)
  let ?rec = "replace_node m None"
  let ?h1 = "set_replacement h self (Some (NodeRef nn))"
  have r: "\<And>h' l. frame h' (outcome_heap (?rec h' l))" by (rule replace_node_None_frame)
  from assms Suc obtain p where p: "parent (obj h self) = Some p"
    by (auto split: sum.splits option.splits)
  have c1: "frame ?h1 (flow_heap (case1 ?rec m ?h1 self (Some nn) p))" by (rule case1_frame[OF r])
  show ?thesis
  proof (cases "case1 ?rec m ?h1 self (Some nn) p")
    case (Returned h2)
    with c1 assms Suc p show ?thesis by (auto split: sum.splits)
  next
    case (Continue h2)
    with c1 have f2: "frame ?h1 h2" by simp
    have c2: "frame h2 (flow_heap (case2 ?rec m h2 self (Some nn) p))" by (rule case2_frame[OF r])
    with f2 have "frame ?h1 (flow_heap (case2 ?rec m h2 self (Some nn) p))" by (rule frame_trans)
    with assms Suc p Continue show ?thesis by (auto split: sum.splits flow.splits)
  qed
qed

subsection \<open>Replacement chains\<close>

lemma rchain_det: "rchain h r as e \<Longrightarrow> rchain h r bs e' \<Longrightarrow> as = bs \<and> e = e'"
proof (induction as arbitrary: r bs)
  case Nil
  then show ?case by (cases bs) (auto split: pyref.splits)
next
  case (Cons a as)
  then show ?case
    by (cases bs) (auto split: pyref.splits option.splits)
qed

lemma rchain_suffix: "rchain h r (xs @ a # ys) e \<Longrightarrow> rchain h (NodeRef a) (a # ys) e"
  by (induction xs arbitrary: r) (auto split: option.splits)

lemma rchain_distinct: "rchain h r as e \<Longrightarrow> distinct as"
proof (induction as arbitrary: r)
  case Nil
  then show ?case by simp
next
  case (Cons a as)
  have d: "distinct as" using Cons by (auto split: option.splits)
  have "a \<notin> set as"
  proof
    assume "a \<in> set as"
    then obtain xs ys where s: "as = xs @ a # ys" by (meson split_list)
    with Cons.prems have "rchain h r ((a # xs) @ a # ys) e" by simp
    then have "rchain h (NodeRef a) (a # ys) e" by (rule rchain_suffix)
    moreover have "rchain h (NodeRef a) (a # as) e" using Cons.prems by auto
    ultimately have "a # ys = a # as" using rchain_det by blast
    with s show False by simp
  qed
  with d show ?case by simp
qed

lemma rchain_end: "rchain h r as (NodeRef z) \<Longrightarrow> replacement_node (obj h z) = None"
  by (induction as arbitrary: r) (auto split: option.splits pyref.splits)

lemma obj_set_replacement:
  "obj (set_replacement h a r) x = (if x = a then (obj h a)\<lparr>replacement_node := r\<rparr> else obj h x)"
  by (simp add: set_replacement_def upd_def)

lemma next_set_replacement [simp]: "next_free (set_replacement h a r) = next_free h"
  by (simp add: set_replacement_def upd_def)

lemma rchain_upd:
  "self \<notin> set as \<Longrightarrow> rchain (set_replacement h self x) r as e = rchain h r as e"
  by (induction as arbitrary: r) (auto simp: obj_set_replacement split: option.splits)

lemma set_replacement_twice [simp]:
  "set_replacement (set_replacement h a r) a r' = set_replacement h a r'"
  by (simp add: set_replacement_def upd_def)

lemma set_replacement_same:
  "replacement_node (obj h a) = r \<Longrightarrow> set_replacement h a r = h"
  by (auto simp: set_replacement_def upd_def)

lemma follow_chain:
  "rchain h r as e \<Longrightarrow> replacement_node (obj h self) = Some r \<Longrightarrow> self \<notin> set as \<Longrightarrow>
   follow h self r = Some (e, set_replacement h self (Some e))"
proof (induction as arbitrary: h r)
  case Nil
  then show ?case
    by (subst follow.simps) (auto split: pyref.splits simp: set_replacement_same)
next
  case (Cons a as)
  then have r: "r = NodeRef a" by simp
  show ?case
  proof (cases "replacement_node (obj h a)")
    case None
    with Cons.prems r show ?thesis
      by (subst follow.simps) (auto simp: set_replacement_same)
  next
    case (Some r')
    let ?h1 = "set_replacement h self (Some r')"
    from Cons.prems Some have c: "rchain h r' as e" by simp
    have "rchain ?h1 r' as e" using c Cons.prems(3) by (simp add: rchain_upd)
    moreover have "replacement_node (obj ?h1 self) = Some r'" by (simp add: obj_set_replacement)
    moreover have "self \<notin> set as" using Cons.prems(3) by simp
    ultimately have "follow ?h1 self r' = Some (e, set_replacement ?h1 self (Some e))"
      by (rule Cons.IH)
    then show ?thesis using Some r by (subst follow.simps) simp
  qed
qed

lemma get_current_node_chain:
  assumes "rchain h (NodeRef x) as e"
  shows "get_current_node h x =
     Some (e, if replacement_node (obj h x) = None then h else set_replacement h x (Some e))"
proof -
  from assms obtain as' where as: "as = x # as'" by (cases as) auto
  show ?thesis
  proof (cases "replacement_node (obj h x)")
    case None
    with assms as show ?thesis by (simp add: get_current_node_def)
  next
    case (Some r)
    with assms as have c: "rchain h r as' e" by simp
    have "distinct as" using assms by (rule rchain_distinct)
    then have "x \<notin> set as'" using as by simp
    from follow_chain[OF c Some this] Some show ?thesis by (simp add: get_current_node_def)
  qed
qed

lemma rchain_preserved:
  assumes s: "rchain h (NodeRef self) sa e" and st: "replacement_node (obj h self) \<noteq> None"
  shows "rchain h y bs e' \<Longrightarrow> \<exists>bs'. rchain (set_replacement h self (Some e)) y bs' e'"
proof (induction bs arbitrary: y)
  case Nil
  then have "rchain (set_replacement h self (Some e)) y [] e'" by simp
  then show ?case by blast
next
  case (Cons b bs)
  let ?h' = "set_replacement h self (Some e)"
  from Cons.prems have y: "y = NodeRef b" by simp
  show ?case
  proof (cases "b = self")
    case True
    with Cons.prems y s have ee: "e' = e" using rchain_det by blast
    show ?thesis
    proof (cases e)
      case (Raw v)
      then have "rchain ?h' y [self] e'" using y True ee by (simp add: obj_set_replacement)
      then show ?thesis by blast
    next
      case (NodeRef z)
      then have zn: "replacement_node (obj h z) = None" using s rchain_end by blast
      with st have "z \<noteq> self" by auto
      then have "rchain ?h' y [self, z] e'" using y True ee NodeRef zn
        by (simp add: obj_set_replacement)
      then show ?thesis by blast
    qed
  next
    case False
    show ?thesis
    proof (cases "replacement_node (obj h b)")
      case None
      with Cons.prems y False have "rchain ?h' y [b] e'" by (simp add: obj_set_replacement)
      then show ?thesis by blast
    next
      case (Some r')
      with Cons.prems have "rchain h r' bs e'" by simp
      then obtain bs' where "rchain ?h' r' bs' e'" using Cons.IH by blast
      with Some y False have "rchain ?h' y (b # bs') e'" by (simp add: obj_set_replacement)
      then show ?thesis by blast
    qed
  qed
qed

lemma XMLCDATANode_set_cdata_step:
  assumes "XMLCDATANode_set_cdata h a s rn = Ok (Some b) h'" "a < next_free h"
  shows "b = next_free h \<and> next_free h' = Suc (next_free h) \<and> is_cdata h' b
     \<and> replacement_node (obj h' a) = Some (NodeRef b)
     \<and> replacement_node (obj h' b) = None
     \<and> (\<forall>x. x \<noteq> a \<and> x \<noteq> b \<longrightarrow> replacement_node (obj h' x) = replacement_node (obj h x))"
proof -
  let ?n = "new_cdata s (tag (obj h a)) (key (obj h a)) (parent (obj h a)) (xml_attrs (obj h a))"
  let ?h1 = "snd (alloc h ?n)"
  let ?b = "next_free h"
  from assms(1) obtain u where r: "replace_node recursion_limit (Some ?b) ?h1 a = Ok u h'"
    and b: "b = ?b"
    by (auto simp: XMLCDATANode_set_cdata_def alloc_def split: sum.splits outcome.splits if_splits)
  have r': "replace_node recursion_limit (Some ?b) ?h1 a = Ok u h'" using r by simp
  note f = replace_node_Some_frame[OF r']
  let ?h2 = "set_replacement ?h1 a (Some (NodeRef ?b))"
  have ne: "a \<noteq> ?b" using assms(2) by simp
  have o2: "obj ?h2 x = (if x = a then (obj h a)\<lparr>replacement_node := Some (NodeRef ?b)\<rparr>
                         else if x = ?b then ?n else obj h x)" for x
    using ne by (auto simp: obj_set_replacement alloc_def)
  have "next_free h' = Suc (next_free h)" using frame_next[OF f] by (simp add: alloc_def)
  moreover have "is_cdata h' b"
  proof -
    have "payload (obj ?h2 ?b) = CDATA s" using o2[of ?b] ne by (simp add: new_cdata_def)
    then have "is_cdata ?h2 ?b" by (simp add: is_cdata_def)
    then show ?thesis using frame_is_cdata[OF f, of ?b] b by simp
  qed
  moreover have "replacement_node (obj h' a) = Some (NodeRef b)"
  proof -
    have "replacement_node (obj ?h2 a) = Some (NodeRef ?b)" using o2[of a] by simp
    then show ?thesis using frame_repl[OF f, of a] b by simp
  qed
  moreover have "replacement_node (obj h' b) = None"
  proof -
    have "replacement_node (obj ?h2 ?b) = None" using o2[of ?b] ne by (simp add: new_cdata_def)
    then show ?thesis using frame_repl[OF f, of ?b] b by simp
  qed
  moreover have "replacement_node (obj h' x) = replacement_node (obj h x)" if "x \<noteq> a \<and> x \<noteq> b" for x
  proof -
    have "replacement_node (obj ?h2 x) = replacement_node (obj h x)" using o2[of x] that b by simp
    then show ?thesis using frame_repl[OF f, of x] by simp
  qed
  ultimately show ?thesis using b by blast
qed

lemma run_op_step:
  assumes "run_op h a op = Ok (Some b) h'" "a < next_free h" "is_cdata h a"
  shows "b = next_free h \<and> next_free h' = Suc (next_free h) \<and> is_cdata h' b
     \<and> replacement_node (obj h' a) = Some (NodeRef b)
     \<and> replacement_node (obj h' b) = None
     \<and> (\<forall>x. x \<noteq> a \<and> x \<noteq> b \<longrightarrow> replacement_node (obj h' x) = replacement_node (obj h x))"
proof -
  from assms(1,3) obtain s where "XMLCDATANode_set_cdata h a s True = Ok (Some b) h'"
    by (auto simp: run_op_def set_cdata_def append_cdata_def XMLCDATANode_append_cdata_def
        is_cdata_def split: cdata_op.splits payload.splits sum.splits)
  then show ?thesis using assms(2) by (rule XMLCDATANode_set_cdata_step)
qed

lemma apply_ops_chain:
  "apply_ops h a ops = Ok bs h' \<Longrightarrow> is_cdata h a \<Longrightarrow> a < next_free h \<Longrightarrow> ops \<noteq> [] \<Longrightarrow>
     bs \<noteq> [] \<and> next_free h \<le> next_free h'
     \<and> (\<forall>x < next_free h. x \<noteq> a \<longrightarrow> replacement_node (obj h' x) = replacement_node (obj h x))
     \<and> (\<forall>x\<in>set (a # bs). \<exists>as. rchain h' (NodeRef x) as (NodeRef (last bs)))"
proof (induction ops arbitrary: h a bs)
  case Nil
  then show ?case by simp
next
  case (Cons op ops)
  from Cons.prems(1) obtain b h1 bs' where
    r: "run_op h a op = Ok (Some b) h1" and t: "apply_ops h1 b ops = Ok bs' h'" and bs: "bs = b # bs'"
    by (auto split: outcome.splits option.splits)
  note S = run_op_step[OF r Cons.prems(3) Cons.prems(2)]
  have Sb: "b = next_free h" and Sn: "next_free h1 = Suc (next_free h)"
    and cb: "is_cdata h1 b"
    and rab: "replacement_node (obj h1 a) = Some (NodeRef b)"
    and rb: "replacement_node (obj h1 b) = None"
    and Sf: "\<And>x. x \<noteq> a \<Longrightarrow> x \<noteq> b \<Longrightarrow>
               replacement_node (obj h1 x) = replacement_node (obj h x)"
    using S by blast+
  have ab: "a \<noteq> b" using Sb Cons.prems(3) by auto
  show ?case
  proof (cases "ops = []")
    case True
    with t have e: "bs' = []" "h' = h1" by auto
    have lb: "last bs = b" using bs e by simp
    have r1: "rchain h1 (NodeRef b) [b] (NodeRef b)" by (simp add: rb)
    have c1: "\<exists>as. rchain h' (NodeRef b) as (NodeRef (last bs))"
      unfolding lb e(2) using r1 by (rule exI)
    have r2: "rchain h1 (NodeRef a) [a, b] (NodeRef b)" by (simp add: rb rab)
    have c2: "\<exists>as. rchain h' (NodeRef a) as (NodeRef (last bs))"
      unfolding lb e(2) using r2 by (rule exI)
    have c3: "\<forall>x < next_free h. x \<noteq> a \<longrightarrow>
        replacement_node (obj h' x) = replacement_node (obj h x)" using Sf Sb e by auto
    have c4: "next_free h \<le> next_free h'" using Sn e by simp
    show ?thesis using c1 c2 c3 c4 bs e by (simp del: rchain.simps)
  next
    case False
    have bl: "b < next_free h1" using Sb Sn by simp
    note I = Cons.IH[OF t cb bl False]
    have la: "last bs = last bs'" using bs I by simp
    have ra: "replacement_node (obj h' a) = Some (NodeRef b)"
    proof -
      have "a < next_free h1" using Sn Cons.prems(3) by simp
      then have "replacement_node (obj h' a) = replacement_node (obj h1 a)" using I ab by blast
      then show ?thesis using rab by simp
    qed
    from I obtain asb where cb': "rchain h' (NodeRef b) asb (NodeRef (last bs'))" by auto
    have ca: "rchain h' (NodeRef a) (a # asb) (NodeRef (last bs'))" using ra cb' by simp
    have fr: "replacement_node (obj h' x) = replacement_node (obj h x)" if "x < next_free h" "x \<noteq> a" for x
    proof -
      have xb: "x \<noteq> b" "x < next_free h1" using that Sb Sn by auto
      then have "replacement_node (obj h' x) = replacement_node (obj h1 x)" using I by blast
      then show ?thesis using Sf[OF that(2) xb(1)] by simp
    qed
    have ca': "\<exists>as. rchain h' (NodeRef a) as (NodeRef (last bs))"
      unfolding la using ca by (rule exI)
    have "\<forall>x\<in>set (b # bs'). \<exists>as. rchain h' (NodeRef x) as (NodeRef (last bs'))"
      using I by blast
    then have "\<forall>x\<in>set bs. \<exists>as. rchain h' (NodeRef x) as (NodeRef (last bs))"
      using la bs by (simp del: rchain.simps)
    with ca' have "\<forall>x\<in>set (a # bs). \<exists>as. rchain h' (NodeRef x) as (NodeRef (last bs))"
      by (simp del: rchain.simps)
    moreover have "next_free h \<le> next_free h'" using I Sn by simp
    ultimately show ?thesis using bs fr by (simp del: rchain.simps)
  qed
qed

text \<open>
  C1. Let \<open>a\<close> be an allocated \<^verbatim>\<open>XMLCDATANode\<close> and let a non-empty run of
  \<^verbatim>\<open>set_cdata\<close>/\<^verbatim>\<open>append_cdata\<close> calls, each on the node returned by the previous
  one, succeed and return the nodes \<open>bs\<close>. Then \<^verbatim>\<open>get_current_node\<close> on the
  original node and on every intermediate node returns the same object, the last node
  returned, also when it is called on one of them after it was called on another. On a
  node whose replacement link is unset the method returns the node itself and leaves the
  store as it is. And whenever the replacement chain of a node is finite the method
  returns the end of the chain, be it a node or a value that is not a node: it has no
  raising outcome.
\<close>

theorem get_current_node_chain_end:
  "(is_cdata h a \<and> a < next_free h \<and> ops \<noteq> [] \<and> apply_ops h a ops = Ok bs h' \<longrightarrow>
      (\<forall>x \<in> set (a # bs). \<forall>y \<in> set (a # bs). \<exists>h1 h2.
          get_current_node h' x = Some (NodeRef (last bs), h1)
        \<and> get_current_node h1 y = Some (NodeRef (last bs), h2)))
   \<and> (replacement_node (obj h a) = None \<longrightarrow> get_current_node h a = Some (NodeRef a, h))
   \<and> (rchain h (NodeRef a) as e \<longrightarrow> (\<exists>h1. get_current_node h a = Some (e, h1)))"
proof (intro conjI impI)
  assume A: "is_cdata h a \<and> a < next_free h \<and> ops \<noteq> [] \<and> apply_ops h a ops = Ok bs h'"
  then have C: "\<forall>x\<in>set (a # bs). \<exists>as. rchain h' (NodeRef x) as (NodeRef (last bs))"
    using apply_ops_chain by blast
  show "\<forall>x \<in> set (a # bs). \<forall>y \<in> set (a # bs). \<exists>h1 h2.
          get_current_node h' x = Some (NodeRef (last bs), h1)
        \<and> get_current_node h1 y = Some (NodeRef (last bs), h2)"
  proof (intro ballI)
    fix x y assume x: "x \<in> set (a # bs)" and y: "y \<in> set (a # bs)"
    let ?e = "NodeRef (last bs)"
    from C x obtain xs where cx: "rchain h' (NodeRef x) xs ?e" by blast
    from C y obtain ys where cy: "rchain h' (NodeRef y) ys ?e" by blast
    let ?h1 = "if replacement_node (obj h' x) = None then h' else set_replacement h' x (Some ?e)"
    have g1: "get_current_node h' x = Some (?e, ?h1)" by (rule get_current_node_chain[OF cx])
    have "\<exists>ys'. rchain ?h1 (NodeRef y) ys' ?e"
    proof (cases "replacement_node (obj h' x) = None")
      case True
      then show ?thesis using cy by auto
    next
      case False
      then show ?thesis using rchain_preserved[OF cx False cy] by auto
    qed
    then obtain ys' where "rchain ?h1 (NodeRef y) ys' ?e" by blast
    from get_current_node_chain[OF this] g1 show "\<exists>h1 h2.
          get_current_node h' x = Some (?e, h1) \<and> get_current_node h1 y = Some (?e, h2)"
      by blast
  qed
next
  assume "replacement_node (obj h a) = None"
  then show "get_current_node h a = Some (NodeRef a, h)" by (simp add: get_current_node_def)
next
  assume "rchain h (NodeRef a) as e"
  from get_current_node_chain[OF this] show "\<exists>h1. get_current_node h a = Some (e, h1)" by blast
qed

lemma replace_node_numeral:
  "replace_node (numeral k) newnode h self =
     (case check_replacement h self of
        Inl e \<Rightarrow> Raise e h
      | Inr u \<Rightarrow>
          (case parent (obj h self) of
             None \<Rightarrow> Raise AttributeError h
           | Some p \<Rightarrow>
               (case case1 (replace_node (pred_numeral k) None) (pred_numeral k)
                       (case newnode of
                          None \<Rightarrow> h
                        | Some nn \<Rightarrow> set_replacement h self (Some (NodeRef nn)))
                       self newnode p of
                  Returned h2 \<Rightarrow> Ok () h2
                | Continue h2 \<Rightarrow>
                    (case case2 (replace_node (pred_numeral k) None) (pred_numeral k) h2 self newnode p of
                       Returned h3 \<Rightarrow> Ok () h3
                     | Continue h3 \<Rightarrow> Raise AttributeError h3))))"
  by (simp add: numeral_eq_Suc)

lemma node_eq_numeral:
  "node_eq (numeral k) h a b =
     (case (payload (obj h a), payload (obj h b)) of
        (CDATA s, CDATA t) \<Rightarrow> Some (s = t)
      | (ListItems xs, ListItems ys) \<Rightarrow>
          if length xs \<noteq> length ys then Some False
          else all_eq (\<lambda>x y. if x = y then Some True else node_eq (pred_numeral k) h x y) xs ys
      | (DictItems kvs, DictItems kvs') \<Rightarrow>
          if length kvs \<noteq> length kvs' then Some False
          else (case all_values_eq (\<lambda>x y. if x = y then Some True else node_eq (pred_numeral k) h x y) kvs kvs' of
                  None \<Rightarrow> None
                | Some False \<Rightarrow> Some False
                | Some True \<Rightarrow> Some (map fst kvs = map fst kvs'))
      | _ \<Rightarrow> Some False)"
  by (simp add: numeral_eq_Suc)

lemmas heap_simps = upd_def alloc_def set_replacement_def set_key_def set_tag_def set_parent_def
  set_payload_def items_def members_def is_list_def is_dict_def is_cdata_def dict_set_def dict_del_def
  list_set_def list_del_def list_append_def truthy_def key_truthy_def check_replacement_def
  new_cdata_def new_dict_def new_list_def key_of_tag_def get_cdata_def

lemmas replace_simps = replace_node_numeral node_eq_numeral recursion_limit_def
  case1_def case2_def plan_a_def delete_member_def od_del_def Let_def

lemma ex1: "\<exists>h'. apply_ops foo_heap 1 [AppendCdata ''bar'', AppendCdata ''baz''] = Ok [2, 3] h'"
  by (simp add: foo_heap_def blank_def run_op_def append_cdata_def set_cdata_def
      XMLCDATANode_append_cdata_def XMLCDATANode_set_cdata_def replace_simps heap_simps)

theorem get_current_node_chain_end_witness:
  "is_cdata foo_heap 1 \<and> 1 < next_free foo_heap \<and> bar_baz \<noteq> []
   \<and> apply_ops foo_heap 1 bar_baz = Ok [2, 3] (outcome_heap (apply_ops foo_heap 1 bar_baz))
   \<and> (\<exists>h1 h2. get_current_node (outcome_heap (apply_ops foo_heap 1 bar_baz)) 1 = Some (NodeRef 3, h1)
              \<and> get_current_node h1 2 = Some (NodeRef 3, h2))
   \<and> replacement_node (obj foo_heap 1) = None
   \<and> get_current_node foo_heap 1 = Some (NodeRef 1, foo_heap)
   \<and> rchain hi_heap (NodeRef 1) [1, 2] (Raw (PyStr ''hi''))
   \<and> (\<exists>h1. get_current_node hi_heap 1 = Some (Raw (PyStr ''hi''), h1))"
proof -
  let ?h' = "outcome_heap (apply_ops foo_heap 1 bar_baz)"
  have e: "\<exists>h'. apply_ops foo_heap 1 bar_baz = Ok [2, 3] h'"
    by (simp add: bar_baz_def foo_heap_def blank_def run_op_def append_cdata_def set_cdata_def
        XMLCDATANode_append_cdata_def XMLCDATANode_set_cdata_def replace_simps heap_simps)
  then have a: "apply_ops foo_heap 1 bar_baz = Ok [2, 3] ?h'" by auto
  have c: "is_cdata foo_heap 1" "1 < next_free foo_heap" "bar_baz \<noteq> []"
    "replacement_node (obj foo_heap 1) = None"
    by (simp_all add: foo_heap_def new_cdata_def is_cdata_def bar_baz_def)
  have r: "rchain hi_heap (NodeRef 1) [1, 2] (Raw (PyStr ''hi''))"
    by (simp add: hi_heap_def new_cdata_def)
  from get_current_node_chain_end[of foo_heap 1 bar_baz "[2, 3]" ?h' "[1]" "NodeRef 1"] a c
  have p1: "\<exists>h1 h2. get_current_node ?h' 1 = Some (NodeRef 3, h1)
              \<and> get_current_node h1 2 = Some (NodeRef 3, h2)"
    and p2: "get_current_node foo_heap 1 = Some (NodeRef 1, foo_heap)"
    by auto
  from get_current_node_chain_end[of hi_heap 1 bar_baz "[2, 3]" ?h' "[1, 2]" "Raw (PyStr ''hi'')"] r
  have p3: "\<exists>h1. get_current_node hi_heap 1 = Some (Raw (PyStr ''hi''), h1)"
    by blast
  show ?thesis using a c r p1 p2 p3 by (simp del: rchain.simps)
qed

lemma check_replacement_stale:
  "replacement_node (obj h a) = Some r \<Longrightarrow> truthy h r \<Longrightarrow> check_replacement h a = Inl AttributeError"
  by (simp add: check_replacement_def)

lemma stale_node_rejected:
  assumes "replacement_node (obj h a) = Some r" "truthy h r"
  shows "set_cdata h a s rn = Raise AttributeError h"
    and "append_cdata h a s rn = Raise AttributeError h"
    and "strip_cdata h a chars rn = Raise AttributeError h"
    and "add_node h a t k txt nn update attrs = Raise AttributeError h"
    and "set_xml_attr h a attr val = Raise AttributeError h"
    and "delete_xml_attr h a attr = Raise AttributeError h"
    and "replace_node (Suc n) newnode h a = Raise AttributeError h"
  using check_replacement_stale[OF assms]
  by (simp_all add: set_cdata_def append_cdata_def strip_cdata_def add_node_def set_xml_attr_def
      delete_xml_attr_def XMLCDATANode_set_cdata_def XMLNodeBase_set_cdata_def
      XMLCDATANode_append_cdata_def XMLNodeBase_append_cdata_def XMLCDATANode_add_node_def
      XMLDictNode_add_node_def XMLListNode_add_node_def split: payload.splits)

text \<open>
  C2, at the failing input. The node 1 of \<open>foo_heap\<close> holds the text \<open>foo\<close>;
  \<^verbatim>\<open>set_cdata("")\<close> replaces it by the node 2, whose string is empty. The node 1 is
  then stale, its replacement link is not \<^verbatim>\<open>None\<close>, but the link is false as a truth
  value, so the check passes and \<^verbatim>\<open>set_xml_attr\<close> changes the attributes of the stale
  node instead of raising.
\<close>

theorem stale_node_with_empty_replacement_is_mutated:
  "set_cdata foo_heap 1 [] True = Ok (Some 2) emptied_heap
   \<and> replacement_node (obj emptied_heap 1) = Some (NodeRef 2)
   \<and> check_replacement emptied_heap 1 = Inr ()
   \<and> xml_attrs (obj emptied_heap 1) = []
   \<and> (\<exists>h2. set_xml_attr emptied_heap 1 ''k'' ''v'' = Ok () h2
             \<and> xml_attrs (obj h2 1) = [(''k'', ''v'')])"
proof -
  have e: "\<exists>h'. set_cdata foo_heap 1 [] True = Ok (Some 2) h'
      \<and> replacement_node (obj h' 1) = Some (NodeRef 2)
      \<and> check_replacement h' 1 = Inr ()
      \<and> xml_attrs (obj h' 1) = []
      \<and> (\<exists>h2. set_xml_attr h' 1 ''k'' ''v'' = Ok () h2 \<and> xml_attrs (obj h2 1) = [(''k'', ''v'')])"
    by (simp add: foo_heap_def blank_def set_cdata_def XMLCDATANode_set_cdata_def
        set_xml_attr_def replace_simps heap_simps)
  then show ?thesis by (auto simp: emptied_heap_def)
qed

lemma XMLCDATANode_set_cdata_retains:
  assumes "XMLCDATANode_set_cdata h a s rn = Ok res h'" "a < next_free h" "is_cdata h a"
  shows "replacement_node (obj h' a) = Some (NodeRef (next_free h))"
    "get_cdata h' a = get_cdata h a" "xml_attrs (obj h' a) = xml_attrs (obj h a)"
proof -
  let ?n = "new_cdata s (tag (obj h a)) (key (obj h a)) (parent (obj h a)) (xml_attrs (obj h a))"
  let ?h1 = "snd (alloc h ?n)"
  let ?b = "next_free h"
  from assms(1) obtain u where r: "replace_node recursion_limit (Some ?b) ?h1 a = Ok u h'"
    by (auto simp: XMLCDATANode_set_cdata_def alloc_def split: sum.splits outcome.splits if_splits)
  note f = replace_node_Some_frame[OF r]
  let ?h2 = "set_replacement ?h1 a (Some (NodeRef ?b))"
  have ne: "a \<noteq> ?b" using assms(2) by simp
  have o2: "obj ?h2 a = (obj h a)\<lparr>replacement_node := Some (NodeRef ?b)\<rparr>"
    using ne by (auto simp: obj_set_replacement alloc_def)
  have c2: "is_cdata ?h2 a" using assms(3) o2 by (simp add: is_cdata_def)
  show "replacement_node (obj h' a) = Some (NodeRef (next_free h))"
    using frame_repl[OF f, of a] o2 by simp
  show "xml_attrs (obj h' a) = xml_attrs (obj h a)"
    using frame_attrs[OF f, of a] o2 by simp
  have "payload (obj h' a) = payload (obj h a)"
    using frame_cdata_payload[OF f c2] o2 by simp
  moreover have "node_text (obj h' a) = node_text (obj h a)"
    using frame_text[OF f, of a] o2 by simp
  ultimately show "get_cdata h' a = get_cdata h a"
    by (simp add: get_cdata_def split: payload.splits)
qed

text \<open>
  C10, as the code has it. The node 1 of \<open>foo_heap\<close> holds the text \<open>foo\<close>;
  \<^verbatim>\<open>set_cdata("bar")\<close> replaces it by the node 2. On the stale node 1,
  \<^verbatim>\<open>get_current_node\<close> does not return the retained data of the node: it returns the
  node 2, whose text is \<open>bar\<close>; and \<^verbatim>\<open>get_xml_attr\<close> without a default raises
  KeyError, as the node has no attribute.
\<close>

theorem stale_node_get_current_node_and_get_xml_attr:
  "set_cdata foo_heap 1 ''bar'' True = Ok (Some 2) bar_heap
   \<and> replacement_node (obj bar_heap 1) = Some (NodeRef 2)
   \<and> get_cdata bar_heap 1 = ''foo''
   \<and> map_option fst (get_current_node bar_heap 1) = Some (NodeRef 2)
   \<and> get_cdata bar_heap 2 = ''bar''
   \<and> get_xml_attr bar_heap 1 ''id'' None = Inl KeyError"
proof -
  have "\<exists>h'. set_cdata foo_heap 1 ''bar'' True = Ok (Some 2) h'
      \<and> replacement_node (obj h' 1) = Some (NodeRef 2)
      \<and> replacement_node (obj h' 2) = None
      \<and> get_cdata h' 1 = ''foo''
      \<and> get_cdata h' 2 = ''bar''
      \<and> get_xml_attr h' 1 ''id'' None = Inl KeyError"
    by (simp add: foo_heap_def blank_def set_cdata_def XMLCDATANode_set_cdata_def
        replace_simps heap_simps get_cdata_def get_xml_attr_def)
  then have e: "set_cdata foo_heap 1 ''bar'' True = Ok (Some 2) bar_heap"
    "replacement_node (obj bar_heap 1) = Some (NodeRef 2)"
    "replacement_node (obj bar_heap 2) = None"
    "get_cdata bar_heap 1 = ''foo''"
    "get_cdata bar_heap 2 = ''bar''"
    "get_xml_attr bar_heap 1 ''id'' None = Inl KeyError"
    by (auto simp: bar_heap_def)
  from e(2,3) have "rchain bar_heap (NodeRef 1) [1, 2] (NodeRef 2)" by simp
  from get_current_node_chain[OF this]
  have "map_option fst (get_current_node bar_heap 1) = Some (NodeRef 2)" by simp
  with e show ?thesis by simp
qed

text \<open>
  C10, amended. \<^verbatim>\<open>get_cdata\<close>, \<^verbatim>\<open>get_xml_attrs\<close>, \<^verbatim>\<open>has_xml_attrs\<close> and
  \<^verbatim>\<open>get_xml_attr\<close> return the data of the node itself: the string of an
  \<^verbatim>\<open>XMLCDATANode\<close> and the text of the other nodes, the attribute dictionary, whether
  it has an entry, and the value of the attribute when present, the default when the
  attribute is absent and a default is given, KeyError when it is absent and none is
  given. The results are the same whatever the replacement link of the node is, so
  none of these is rejected on a stale node, and an \<^verbatim>\<open>XMLCDATANode\<close> that
  \<^verbatim>\<open>set_cdata\<close> has replaced is stale and gives the same results as before.
  \<^verbatim>\<open>get_current_node\<close> returns the end of the replacement chain whenever the chain is
  finite. The operations that change a node raise AttributeError on a node whose
  replacement link is true.
\<close>

theorem read_only_operations_ignore_staleness:
  "get_cdata h a = (case payload (obj h a) of CDATA c \<Rightarrow> c | _ \<Rightarrow> node_text (obj h a))
   \<and> get_xml_attrs h a = xml_attrs (obj h a)
   \<and> has_xml_attrs h a = (xml_attrs (obj h a) \<noteq> [])
   \<and> get_xml_attr h a attr d =
        (case map_of (xml_attrs (obj h a)) attr of
           Some v \<Rightarrow> Inr v
         | None \<Rightarrow> (case d of Some dv \<Rightarrow> Inr dv | None \<Rightarrow> Inl KeyError))
   \<and> get_cdata (set_replacement h a r) a = get_cdata h a
   \<and> get_xml_attrs (set_replacement h a r) a = get_xml_attrs h a
   \<and> has_xml_attrs (set_replacement h a r) a = has_xml_attrs h a
   \<and> get_xml_attr (set_replacement h a r) a attr d = get_xml_attr h a attr d
   \<and> (is_cdata h a \<and> a < next_free h \<and> XMLCDATANode_set_cdata h a s rn = Ok res h' \<longrightarrow>
        replacement_node (obj h' a) = Some (NodeRef (next_free h))
        \<and> get_cdata h' a = get_cdata h a
        \<and> get_xml_attrs h' a = get_xml_attrs h a
        \<and> has_xml_attrs h' a = has_xml_attrs h a
        \<and> get_xml_attr h' a attr d = get_xml_attr h a attr d)
   \<and> (rchain h (NodeRef a) as e \<longrightarrow> (\<exists>h1. get_current_node h a = Some (e, h1)))
   \<and> (replacement_node (obj h a) = Some q \<and> truthy h q \<longrightarrow>
        set_cdata h a s rn = Raise AttributeError h
        \<and> append_cdata h a s rn = Raise AttributeError h
        \<and> strip_cdata h a chars rn = Raise AttributeError h
        \<and> add_node h a t k txt nn update attrs = Raise AttributeError h
        \<and> set_xml_attr h a attr val = Raise AttributeError h
        \<and> delete_xml_attr h a attr = Raise AttributeError h)"
proof -
  have 0: "get_cdata h a = (case payload (obj h a) of CDATA c \<Rightarrow> c | _ \<Rightarrow> node_text (obj h a))"
    "get_xml_attrs h a = xml_attrs (obj h a)"
    "has_xml_attrs h a = (xml_attrs (obj h a) \<noteq> [])"
    "get_xml_attr h a attr d =
        (case map_of (xml_attrs (obj h a)) attr of
           Some v \<Rightarrow> Inr v
         | None \<Rightarrow> (case d of Some dv \<Rightarrow> Inr dv | None \<Rightarrow> Inl KeyError))"
    by (simp_all add: get_cdata_def get_xml_attrs_def has_xml_attrs_def get_xml_attr_def)
  have 1: "get_cdata (set_replacement h a r) a = get_cdata h a"
    "get_xml_attrs (set_replacement h a r) a = get_xml_attrs h a"
    "has_xml_attrs (set_replacement h a r) a = has_xml_attrs h a"
    "get_xml_attr (set_replacement h a r) a attr d = get_xml_attr h a attr d"
    by (simp_all add: get_cdata_def get_xml_attrs_def has_xml_attrs_def get_xml_attr_def
        obj_set_replacement split: payload.splits)
  have 3: "replacement_node (obj h' a) = Some (NodeRef (next_free h))
        \<and> get_cdata h' a = get_cdata h a
        \<and> get_xml_attrs h' a = get_xml_attrs h a
        \<and> has_xml_attrs h' a = has_xml_attrs h a
        \<and> get_xml_attr h' a attr d = get_xml_attr h a attr d"
    if "is_cdata h a \<and> a < next_free h \<and> XMLCDATANode_set_cdata h a s rn = Ok res h'"
    using XMLCDATANode_set_cdata_retains[of h a s rn res h'] that
    by (simp add: get_xml_attrs_def has_xml_attrs_def get_xml_attr_def)
  have 4: "\<exists>h1. get_current_node h a = Some (e, h1)" if "rchain h (NodeRef a) as e"
    using get_current_node_chain[OF that] by blast
  have 5: "set_cdata h a s rn = Raise AttributeError h
        \<and> append_cdata h a s rn = Raise AttributeError h
        \<and> strip_cdata h a chars rn = Raise AttributeError h
        \<and> add_node h a t k txt nn update attrs = Raise AttributeError h
        \<and> set_xml_attr h a attr val = Raise AttributeError h
        \<and> delete_xml_attr h a attr = Raise AttributeError h"
    if "replacement_node (obj h a) = Some q \<and> truthy h q"
    using stale_node_rejected[of h a q] that by simp
  show ?thesis using 0 1 3 4 5 by blast
qed


theorem read_only_operations_ignore_staleness_witness:
  "is_cdata id_heap 1 \<and> 1 < next_free id_heap
   \<and> XMLCDATANode_set_cdata id_heap 1 ''bar'' True = Ok (Some 2) id_heap_after
   \<and> replacement_node (obj id_heap_after 1) = Some (NodeRef 2)
   \<and> truthy id_heap_after (NodeRef 2)
   \<and> get_cdata id_heap_after 1 = ''foo''
   \<and> get_xml_attrs id_heap_after 1 = [(''id'', ''1'')]
   \<and> has_xml_attrs id_heap_after 1
   \<and> get_xml_attr id_heap_after 1 ''id'' None = Inr ''1''
   \<and> get_xml_attr id_heap_after 1 ''k'' (Some ''none'') = Inr ''none''
   \<and> get_xml_attr id_heap_after 1 ''k'' None = Inl KeyError
   \<and> rchain id_heap_after (NodeRef 1) [1, 2] (NodeRef 2)
   \<and> (\<exists>h1. get_current_node id_heap_after 1 = Some (NodeRef 2, h1))
   \<and> set_xml_attr id_heap_after 1 ''k'' ''v'' = Raise AttributeError id_heap_after"
proof -
  have "\<exists>h'. XMLCDATANode_set_cdata id_heap 1 ''bar'' True = Ok (Some 2) h'
      \<and> truthy h' (NodeRef 2) \<and> replacement_node (obj h' 2) = None"
    by (simp add: id_heap_def blank_def XMLCDATANode_set_cdata_def replace_simps heap_simps
        truthy_def)
  then have a: "XMLCDATANode_set_cdata id_heap 1 ''bar'' True = Ok (Some 2) id_heap_after"
    and tr: "truthy id_heap_after (NodeRef 2)" "replacement_node (obj id_heap_after 2) = None"
    by (auto simp: id_heap_after_def)
  have c: "is_cdata id_heap 1" "1 < next_free id_heap" "next_free id_heap = 2"
    "payload (obj id_heap 1) = CDATA ''foo''" "xml_attrs (obj id_heap 1) = [(''id'', ''1'')]"
    by (simp_all add: id_heap_def new_cdata_def is_cdata_def)
  note t = read_only_operations_ignore_staleness[where h = id_heap and a = 1 and s = "''bar''"
      and rn = True and res = "Some 2" and h' = id_heap_after]
  have p1: "replacement_node (obj id_heap_after 1) = Some (NodeRef 2)"
    "get_cdata id_heap_after 1 = ''foo''"
    "get_xml_attrs id_heap_after 1 = [(''id'', ''1'')]"
    "has_xml_attrs id_heap_after 1"
    using t[where attr = "''id''" and d = None] a c by simp_all
  have p2: "get_xml_attr id_heap_after 1 ''id'' None = Inr ''1''"
    using t[where attr = "''id''" and d = None] a c by simp
  have p3: "get_xml_attr id_heap_after 1 ''k'' (Some ''none'') = Inr ''none''"
    using t[where attr = "''k''" and d = "Some ''none''"] a c by simp
  have p4: "get_xml_attr id_heap_after 1 ''k'' None = Inl KeyError"
    using t[where attr = "''k''" and d = None] a c by simp
  have r: "rchain id_heap_after (NodeRef 1) [1, 2] (NodeRef 2)"
    using p1(1) tr(2) by simp
  from read_only_operations_ignore_staleness[where h = id_heap_after and a = 1
      and as = "[1, 2]" and e = "NodeRef 2"] r
  have p5: "\<exists>h1. get_current_node id_heap_after 1 = Some (NodeRef 2, h1)" by blast
  from read_only_operations_ignore_staleness[where h = id_heap_after and a = 1
      and q = "NodeRef 2" and attr = "''k''" and val = "''v''"] p1(1) tr(1)
  have p6: "set_xml_attr id_heap_after 1 ''k'' ''v'' = Raise AttributeError id_heap_after"
    by blast
  show ?thesis using a c(1,2) p1 tr(1) p2 p3 p4 r p5 p6 by (simp del: rchain.simps)
qed

lemma od_set_new: "map_of kvs k = None \<Longrightarrow> od_set k v kvs = kvs @ [(k, v)]"
  by (induction kvs) (auto split: if_splits)

lemma od_set_keys: "map_of kvs k = Some w \<Longrightarrow> map fst (od_set k v kvs) = map fst kvs"
  by (induction kvs) (auto split: if_splits)

lemma od_set_append: "map_of kvs k = None \<Longrightarrow> od_set k v (kvs @ [(k, w)]) = kvs @ [(k, v)]"
  by (induction kvs) (auto split: if_splits)

lemma map_of_append_new: "map_of kvs k = None \<Longrightarrow> map_of (kvs @ [(k, v)]) k = Some v"
  by (induction kvs) (auto split: if_splits)

lemma payload_upd_other [simp]:
  "payload (obj (set_parent h a p) x) = payload (obj h x)"
  "payload (obj (set_key h a k) x) = payload (obj h x)"
  "payload (obj (set_tag h a t) x) = payload (obj h x)"
  by (simp_all add: set_parent_def set_key_def set_tag_def upd_def)

lemma next_upd [simp]:
  "next_free (set_parent h a p) = next_free h"
  "next_free (set_key h a k) = next_free h"
  "next_free (set_tag h a t) = next_free h"
  "next_free (set_payload h a pl) = next_free h"
  by (simp_all add: set_parent_def set_key_def set_tag_def set_payload_def upd_def)

lemma payload_set_payload [simp]:
  "payload (obj (set_payload h a pl) x) = (if x = a then pl else payload (obj h x))"
  by (simp add: set_payload_def upd_def)

lemma items_simps [simp]:
  "items (set_parent h a p) x = items h x"
  "items (set_key h a k) x = items h x"
  "items (set_tag h a t) x = items h x"
  "members (set_parent h a p) x = members h x"
  "members (set_key h a k) x = members h x"
  "members (set_tag h a t) x = members h x"
  "is_list (set_parent h a p) x = is_list h x"
  "is_list (set_key h a k) x = is_list h x"
  "is_list (set_tag h a t) x = is_list h x"
  by (simp_all add: items_def members_def is_list_def)

lemma store_child_new:
  assumes "map_of (items h d) k = None"
  shows "items (store_child h d t k nn u) d = items h d @ [(k, nn)]"
    and "next_free (store_child h d t k nn u) = next_free h"
    and "x \<noteq> d \<Longrightarrow> payload (obj (store_child h d t k nn u) x) = payload (obj h x)"
  using assms by (simp_all add: store_child_def dict_set_def items_def od_set_new)

lemma store_child_wrap:
  assumes "map_of (items h d) k = Some old" "\<not> is_list h old" "d < next_free h"
  shows "items (store_child h d t k nn u) d = od_set k (next_free h) (items h d)"
    and "members (store_child h d t k nn u) (next_free h) = [old, nn]"
    and "is_list (store_child h d t k nn u) (next_free h)"
    and "next_free (store_child h d t k nn u) = Suc (next_free h)"
    and "x \<noteq> d \<Longrightarrow> x \<noteq> next_free h \<Longrightarrow>
           payload (obj (store_child h d t k nn u) x) = payload (obj h x)"
  using assms
  by (auto simp: store_child_def dict_set_def list_append_def alloc_def items_def members_def
      is_list_def new_list_def)

lemma store_child_append:
  assumes "map_of (items h d) k = Some old" "is_list h old"
  shows "items (store_child h d t k nn u) d = items h d"
    and "members (store_child h d t k nn u) old = members h old @ [nn]"
    and "is_list (store_child h d t k nn u) old"
    and "next_free (store_child h d t k nn u) = next_free h"
    and "x \<noteq> old \<Longrightarrow> payload (obj (store_child h d t k nn u) x) = payload (obj h x)"
  using assms
  by (auto simp: store_child_def list_append_def items_def members_def is_list_def
      split: payload.splits)

lemma add_node_decompose:
  assumes "XMLDictNode_add_node h d t k txt new_node u attrs = Ok n h'"
  shows "\<exists>hx. h' = store_child hx d t (add_key h k t new_node) n u
            \<and> next_free h \<le> next_free hx \<and> next_free hx \<le> Suc (next_free h)
            \<and> (\<forall>x < next_free h. payload (obj hx x) = payload (obj h x))
            \<and> (case new_node of
                  None \<Rightarrow> n = next_free h \<and> next_free hx = Suc (next_free h)
                | Some r \<Rightarrow> r = NodeRef n \<and> next_free hx = next_free h)"
proof (cases new_node)
  case None
  let ?h1 = "snd (alloc h (new_cdata txt t (key_of_tag t) None attrs))"
  let ?hx = "if key_truthy k then (if u then set_key ?h1 (next_free h) k else ?h1) else ?h1"
  from assms None have "h' = store_child ?hx d t (add_key h k t new_node) n u" "n = next_free h"
    by (auto simp: XMLDictNode_add_node_def add_key_def alloc_def split: sum.splits if_splits)
  moreover have "next_free ?hx = Suc (next_free h)" by (simp add: alloc_def)
  moreover have "\<forall>x < next_free h. payload (obj ?hx x) = payload (obj h x)"
    by (simp add: alloc_def)
  ultimately show ?thesis using None by (intro exI[of _ ?hx]) simp
next
  case (Some r)
  with assms obtain x where r: "r = NodeRef x"
    by (cases r) (auto simp: XMLDictNode_add_node_def split: sum.splits)
  let ?h1 = "if key_truthy k then (if u then set_key h x k else h) else h"
  let ?hx = "if u then set_tag ?h1 x t else ?h1"
  from assms Some r have "h' = store_child ?hx d t (add_key h k t new_node) n u" "n = x"
    by (auto simp: XMLDictNode_add_node_def add_key_def split: sum.splits if_splits)
  moreover have "next_free ?hx = next_free h" by simp
  moreover have "\<forall>y < next_free h. payload (obj ?hx y) = payload (obj h y)" by simp
  ultimately show ?thesis using Some r by (intro exI[of _ ?hx]) simp
qed

lemma items_payload_eq: "payload (obj h' x) = payload (obj h x) \<Longrightarrow> items h' x = items h x"
  and members_payload_eq: "payload (obj h' x) = payload (obj h x) \<Longrightarrow> members h' x = members h x"
  and is_list_payload_eq: "payload (obj h' x) = payload (obj h x) \<Longrightarrow> is_list h' x = is_list h x"
  and is_dict_payload_eq: "payload (obj h' x) = payload (obj h x) \<Longrightarrow> is_dict h' x = is_dict h x"
  by (simp_all add: items_def members_def is_list_def is_dict_def)

lemma add_node_dict: "is_dict h d \<Longrightarrow>
  add_node h d t k txt nn u attrs = XMLDictNode_add_node h d t k txt nn u attrs"
  by (auto simp: add_node_def is_dict_def split: payload.splits)

lemma is_dict_items: "items h d \<noteq> [] \<Longrightarrow> is_dict h d"
  by (auto simp: items_def is_dict_def split: payload.splits)

text \<open>
  C3, amended. Let \<open>d\<close> be an allocated \<^verbatim>\<open>XMLDictNode\<close> without the key \<open>ke\<close>,
  and let three \<^verbatim>\<open>add_node\<close> calls on \<open>d\<close> succeed, each storing under \<open>ke\<close>.
  The first stores its child \<open>n1\<close> directly under \<open>ke\<close>, after the keys already
  present. If that child is not an \<^verbatim>\<open>XMLListNode\<close>, the second call puts a new
  \<^verbatim>\<open>XMLListNode\<close> holding the old child and then the new one under \<open>ke\<close>, and
  the third call appends to that list, which then has the three children in the order
  of the calls. The keys stay unique and in first-seen order.
\<close>

theorem add_node_duplicate_key_promotion:
  assumes d: "is_dict h d" "d < next_free h"
    and k0: "map_of (items h d) ke = None"
    and a1: "add_node h d t1 k1 txt1 nn1 u1 at1 = Ok n1 h1" "add_key h k1 t1 nn1 = ke"
    and n1: "n1 < next_free h1" "\<not> is_list h1 n1"
    and a2: "add_node h1 d t2 k2 txt2 nn2 u2 at2 = Ok n2 h2" "add_key h1 k2 t2 nn2 = ke"
    and a3: "add_node h2 d t3 k3 txt3 nn3 u3 at3 = Ok n3 h3" "add_key h2 k3 t3 nn3 = ke"
  shows "items h1 d = items h d @ [(ke, n1)]
     \<and> (\<exists>l. items h2 d = items h d @ [(ke, l)] \<and> is_list h2 l \<and> members h2 l = [n1, n2]
            \<and> items h3 d = items h d @ [(ke, l)] \<and> is_list h3 l \<and> members h3 l = [n1, n2, n3])
     \<and> (distinct (map fst (items h d)) \<longrightarrow>
           distinct (map fst (items h1 d)) \<and> distinct (map fst (items h2 d))
           \<and> distinct (map fst (items h3 d)))"
proof -
  \<comment> \<open>first call\<close>
  from a1(1) d(1) have "XMLDictNode_add_node h d t1 k1 txt1 nn1 u1 at1 = Ok n1 h1"
    by (simp add: add_node_dict)
  from add_node_decompose[OF this] obtain hx where
    x10: "h1 = store_child hx d t1 (add_key h k1 t1 nn1) n1 u1" "next_free h \<le> next_free hx"
      "\<forall>x < next_free h. payload (obj hx x) = payload (obj h x)"
    by blast
  note x1 = x10[unfolded a1(2)]
  have ix: "items hx d = items h d" using x1(3) d(2) by (intro items_payload_eq) simp
  then have kx: "map_of (items hx d) ke = None" using k0 by simp
  have i1: "items h1 d = items h d @ [(ke, n1)]"
    using store_child_new(1)[OF kx] x1(1) ix by simp
  have nf1: "next_free h \<le> next_free h1" using store_child_new(2)[OF kx] x1(1,2) by simp
  have d1: "is_dict h1 d" "d < next_free h1" using i1 is_dict_items nf1 d(2) by auto
  \<comment> \<open>second call\<close>
  from a2(1) d1(1) have "XMLDictNode_add_node h1 d t2 k2 txt2 nn2 u2 at2 = Ok n2 h2"
    by (simp add: add_node_dict)
  from add_node_decompose[OF this] obtain hy where
    x20: "h2 = store_child hy d t2 (add_key h1 k2 t2 nn2) n2 u2" "next_free h1 \<le> next_free hy"
      "\<forall>x < next_free h1. payload (obj hy x) = payload (obj h1 x)"
    by blast
  note x2 = x20[unfolded a2(2)]
  have iy: "items hy d = items h1 d" using x2(3) d1(2) by (intro items_payload_eq) simp
  then have ky: "map_of (items hy d) ke = Some n1"
    using i1 map_of_append_new[OF k0, of n1] by simp
  have "is_list hy n1 = is_list h1 n1" using x2(3) n1(1) by (intro is_list_payload_eq) simp
  then have nl: "\<not> is_list hy n1" using n1(2) by simp
  have dy: "d < next_free hy" using d1(2) x2(2) by simp
  let ?l = "next_free hy"
  note W = store_child_wrap[OF ky nl dy, where t=t2 and nn=n2 and u=u2, folded x2(1)]
  have i2: "items h2 d = items h d @ [(ke, ?l)]"
    using W(1) iy i1 k0 by (simp add: od_set_append)
  have d2: "is_dict h2 d" "d < next_free h2" using i2 is_dict_items W(4) dy by auto
  \<comment> \<open>third call\<close>
  from a3(1) d2(1) have "XMLDictNode_add_node h2 d t3 k3 txt3 nn3 u3 at3 = Ok n3 h3"
    by (simp add: add_node_dict)
  from add_node_decompose[OF this] obtain hz where
    x30: "h3 = store_child hz d t3 (add_key h2 k3 t3 nn3) n3 u3" "next_free h2 \<le> next_free hz"
      "\<forall>x < next_free h2. payload (obj hz x) = payload (obj h2 x)"
    by blast
  note x3 = x30[unfolded a3(2)]
  have iz: "items hz d = items h2 d" using x3(3) d2(2) by (intro items_payload_eq) simp
  then have kz: "map_of (items hz d) ke = Some ?l"
    using i2 map_of_append_new[OF k0, of ?l] by simp
  have ll: "?l < next_free h2" using W(4) by simp
  have pz: "payload (obj hz ?l) = payload (obj h2 ?l)" using x3(3) ll by simp
  have lz: "is_list hz ?l" "members hz ?l = [n1, n2]"
    using is_list_payload_eq[OF pz] members_payload_eq[OF pz] W(2,3) by simp_all
  note A = store_child_append[OF kz lz(1), where t=t3 and nn=n3 and u=u3, folded x3(1)]
  have i3: "items h3 d = items h d @ [(ke, ?l)]" using A(1) iz i2 by simp
  have m3: "members h3 ?l = [n1, n2, n3]" using A(2) lz(2) by simp
  have kd: "ke \<notin> fst ` set (items h d)" using k0 by (simp add: map_of_eq_None_iff)
  have "distinct (map fst (items h1 d)) \<and> distinct (map fst (items h2 d))
           \<and> distinct (map fst (items h3 d))" if "distinct (map fst (items h d))"
    using that kd i1 i2 i3 by simp
  then show ?thesis using i1 i2 i3 m3 W(2,3) A(3) by blast
qed

lemmas add_simps = add_node_def XMLDictNode_add_node_def store_child_def blank_def

text \<open>
  C3, as the code has it. The child under an existing key is wrapped only when it is
  not already an \<^verbatim>\<open>XMLListNode\<close>. Here the first call stores the empty list node 1
  (passed as \<^verbatim>\<open>new_node\<close>) under \<open>k\<close>; the second call under \<open>k\<close> appends
  its child to that node, which then has one member, and no list of length 2 is made.
\<close>

theorem add_node_onto_list_child:
  "add_node l_heap0 0 (Some ''k'') KNone [] (Some (NodeRef 1)) True [] = Ok 1 l_heap1
   \<and> items l_heap1 0 = [(KStr ''k'', 1)]
   \<and> add_node l_heap1 0 (Some ''k'') KNone [] None True [] = Ok 2 l_heap2
   \<and> items l_heap2 0 = [(KStr ''k'', 1)]
   \<and> members l_heap2 1 = [2]
   \<and> is_cdata l_heap2 2"
  by (simp add: l_heap2_def l_heap1_def l_heap0_def add_simps heap_simps)

theorem add_node_duplicate_key_promotion_witness:
  "is_dict b_heap0 0 \<and> 0 < next_free b_heap0 \<and> map_of (items b_heap0 0) (KStr ''b'') = None
   \<and> add_node b_heap0 0 (Some ''b'') KNone ''1'' None True [] = Ok 1 b_heap1
   \<and> add_key b_heap0 KNone (Some ''b'') None = KStr ''b''
   \<and> 1 < next_free b_heap1 \<and> \<not> is_list b_heap1 1
   \<and> add_node b_heap1 0 (Some ''b'') KNone ''2'' None True [] = Ok 2 b_heap2
   \<and> add_key b_heap1 KNone (Some ''b'') None = KStr ''b''
   \<and> add_node b_heap2 0 (Some ''b'') KNone ''3'' None True [] = Ok 4 b_heap3
   \<and> add_key b_heap2 KNone (Some ''b'') None = KStr ''b''
   \<and> items b_heap1 0 = [(KStr ''b'', 1)]
   \<and> items b_heap2 0 = [(KStr ''b'', 3)] \<and> members b_heap2 3 = [1, 2]
   \<and> items b_heap3 0 = [(KStr ''b'', 3)] \<and> members b_heap3 3 = [1, 2, 4]"
proof -
  have h0: "is_dict b_heap0 0" "0 < next_free b_heap0" "map_of (items b_heap0 0) (KStr ''b'') = None"
    "items b_heap0 0 = []"
    by (simp_all add: b_heap0_def blank_def heap_simps)
  have k: "add_key b_heap0 KNone (Some ''b'') None = KStr ''b''"
    "add_key b_heap1 KNone (Some ''b'') None = KStr ''b''"
    "add_key b_heap2 KNone (Some ''b'') None = KStr ''b''"
    by (simp_all add: add_key_def key_truthy_def key_of_tag_def)
  have a1: "add_node b_heap0 0 (Some ''b'') KNone ''1'' None True [] = Ok 1 b_heap1"
    by (simp add: b_heap1_def b_heap0_def add_simps heap_simps)
  have n1: "1 < next_free b_heap1" "\<not> is_list b_heap1 1"
    by (simp_all add: b_heap1_def b_heap0_def add_simps heap_simps)
  have a2: "add_node b_heap1 0 (Some ''b'') KNone ''2'' None True [] = Ok 2 b_heap2"
    by (simp add: b_heap2_def b_heap1_def b_heap0_def add_simps heap_simps)
  have a3: "add_node b_heap2 0 (Some ''b'') KNone ''3'' None True [] = Ok 4 b_heap3"
    by (simp add: b_heap3_def b_heap2_def b_heap1_def b_heap0_def add_simps heap_simps)
  have l: "is_list b_heap2 3" "\<not> is_list b_heap2 l \<or> l = 3 \<or> items b_heap2 0 \<noteq> [(KStr ''b'', l)]" for l
    by (auto simp add: b_heap2_def b_heap1_def b_heap0_def add_simps heap_simps)
  from add_node_duplicate_key_promotion[OF h0(1,2,3) a1 k(1) n1 a2 k(2) a3 k(3)] h0(4)
  have c: "items b_heap1 0 = [(KStr ''b'', 1)]"
    "\<exists>l. items b_heap2 0 = [(KStr ''b'', l)] \<and> is_list b_heap2 l \<and> members b_heap2 l = [1, 2]
            \<and> items b_heap3 0 = [(KStr ''b'', l)] \<and> is_list b_heap3 l \<and> members b_heap3 l = [1, 2, 4]"
    by simp_all
  from c(2) l(2) have "items b_heap2 0 = [(KStr ''b'', 3)] \<and> members b_heap2 3 = [1, 2]
   \<and> items b_heap3 0 = [(KStr ''b'', 3)] \<and> members b_heap3 3 = [1, 2, 4]"
    by blast
  then show ?thesis using h0 k a1 n1 a2 a3 c(1) by simp
qed

text \<open>
  C6, at the failing input. Two calls of \<^verbatim>\<open>add_node\<close> with the tag \<open>b\<close> and the
  text \<open>x\<close> on the empty dictionary 0 build the nodes 1 and 2, two
  \<^verbatim>\<open>XMLCDATANode\<close>s with the same text and different attributes, and the list node 3
  that holds them. The node 2 is current and located in its parent at index 1. Deleting
  it scans the list with \<^verbatim>\<open>==\<close>, which for strings compares the characters, finds the
  node 1 first and deletes its slot: the node 2 stays in the list.
\<close>

theorem replace_node_deletes_equal_sibling:
  "add_node b_heap0 0 (Some ''b'') KNone ''x'' None True [(''id'', ''1'')] = Ok 1 twin_heap1
   \<and> add_node twin_heap1 0 (Some ''b'') KNone ''x'' None True [(''id'', ''2'')] = Ok 2 twin_heap
   \<and> items twin_heap 0 = [(KStr ''b'', 3)]
   \<and> members twin_heap 3 = [1, 2]
   \<and> xml_attrs (obj twin_heap 1) = [(''id'', ''1'')]
   \<and> xml_attrs (obj twin_heap 2) = [(''id'', ''2'')]
   \<and> parent (obj twin_heap 2) = Some 3
   \<and> replacement_node (obj twin_heap 2) = None
   \<and> replace_node recursion_limit None twin_heap 2 = Ok () twin_heap_after
   \<and> members twin_heap_after 3 = [2]"
  by (simp add: twin_heap_after_def twin_heap_def twin_heap1_def b_heap0_def blank_def
      add_simps replace_simps heap_simps)

lemma replace_node_last_member_removes_key:
  "items solo_heap 0 = [(KStr ''b'', 1)] \<and> members solo_heap 1 = [2]
   \<and> replace_node recursion_limit None solo_heap 2 = Ok () solo_heap_after
   \<and> members solo_heap_after 1 = []
   \<and> items solo_heap_after 0 = []"
  by (simp add: solo_heap_after_def solo_heap_def blank_def replace_simps heap_simps)

lemma replace_node_root_raises:
  "check_replacement h self = Inr () \<Longrightarrow> parent (obj h self) = None \<Longrightarrow>
   replace_node (Suc n) newnode h self = Raise AttributeError h"
  by simp

lemma emit_node_numeral:
  "emit_node (numeral k) h pretty newl indent lvl self =
     (case payload (obj h self) of
        CDATA s \<Rightarrow>
          Inr ((if pretty then [IgnorableWhitespace (concat (replicate lvl indent))] else [])
               @ [StartElement (tag (obj h self)) (xml_attrs (obj h self)),
                  Characters s,
                  EndElement (tag (obj h self))]
               @ (if pretty \<and> lvl > 0 then [IgnorableWhitespace newl] else []))
      | ListItems ms \<Rightarrow>
          emit_all (emit_node (pred_numeral k) h pretty newl indent lvl) (pretty \<and> lvl = 0) newl True ms
      | DictItems kvs \<Rightarrow>
          if (tag (obj h self) = None \<and> lvl = 0) \<or> ignore_level (obj h self)
          then emit_all (emit_node (pred_numeral k) h pretty newl indent lvl) (pretty \<and> lvl = 0) newl True
                 (map snd kvs)
          else
            (case emit_all (emit_node (pred_numeral k) h pretty newl indent (Suc lvl)) False newl True
                    (map snd kvs) of
               Inl e \<Rightarrow> Inl e
             | Inr inner \<Rightarrow>
                 Inr ((if pretty then [IgnorableWhitespace (concat (replicate lvl indent))] else [])
                      @ [StartElement (tag (obj h self)) (xml_attrs (obj h self))]
                      @ (if pretty \<and> length kvs > 0 then [IgnorableWhitespace newl] else [])
                      @ inner
                      @ [Characters (strip None (node_text (obj h self)))]
                      @ (if pretty \<and> length kvs > 0
                         then [IgnorableWhitespace (concat (replicate lvl indent))] else [])
                      @ [EndElement (tag (obj h self))]
                      @ (if pretty \<and> lvl > 0 then [IgnorableWhitespace newl] else []))))"
  by (simp add: numeral_eq_Suc)

text \<open>
  C9, at the failing input. The node 3 is the dictionary that \<^verbatim>\<open>dict(func=...)\<close>
  returns for the list node 0 with the members \<open>x\<close> and \<open>y\<close>, keyed by their
  text: it has the tag \<open>b\<close> of the list, \<^verbatim>\<open>_ignore_level\<close> set, and two children.
  \<^verbatim>\<open>_emit_handler\<close> passes through such a node and emits its children as top-level
  elements, but the check of \<^verbatim>\<open>emit_handler\<close> sees a tag and accepts the node as a
  full document: with \<^verbatim>\<open>full_document=True\<close> no ValueError is raised and the document
  gets two root elements.
\<close>

theorem emit_handler_ignore_level_two_roots:
  "emit_handler keyed_heap 3 False ''\<newline>'' ''    '' (Some True) =
     Some (Inr [StartDocument,
                StartElement (Some ''b'') [], Characters ''x'', EndElement (Some ''b''),
                StartElement (Some ''b'') [], Characters ''y'', EndElement (Some ''b''),
                EndDocument])
   \<and> top_level_elements 0
        [StartDocument,
         StartElement (Some ''b'') [], Characters ''x'', EndElement (Some ''b''),
         StartElement (Some ''b'') [], Characters ''y'', EndElement (Some ''b''),
         EndDocument] = 2"
  by (simp add: emit_handler_def full_document_check.simps keyed_heap_def blank_def
      emit_node_numeral recursion_limit_def heap_simps)

lemma emit_handler_not_ok:
  assumes "full_document_check h self = Some (False, curnode)"
  shows "emit_handler h self pretty newl indent (Some True) = Some (Inl ValueError)"
    and "emit_handler h self pretty newl indent None =
           Some (emit_node recursion_limit h pretty newl indent 0 curnode)"
  using assms by (auto simp: emit_handler_def split: sum.splits)

lemma full_document_check_tagless_dict:
  "payload (obj h self) = DictItems kvs \<Longrightarrow> tag (obj h self) = None \<Longrightarrow> length kvs > 1 \<Longrightarrow>
   full_document_check h self = Some (False, self)"
  by (subst full_document_check.simps) (auto split: list.splits)

lemma full_document_check_list:
  "payload (obj h self) = ListItems ms \<Longrightarrow> length ms > 1 \<Longrightarrow>
   full_document_check h self = Some (False, self)"
  by (subst full_document_check.simps) auto

theorem emit_handler_ignore_level_two_roots_witness:
  "(case emit_handler keyed_heap 3 False ''\<newline>'' ''    '' (Some True) of
      Some (Inr out) \<Rightarrow> top_level_elements 0 out = 2 \<and> hd out = StartDocument
    | _ \<Rightarrow> False)"
  using emit_handler_ignore_level_two_roots by simp

section \<open>Properties of the parser driver\<close>

subsection \<open>The match check at the end of the document\<close>

lemma split_single_empty: "split c s = [[]] \<Longrightarrow> s = []"
proof (cases s)
  case Nil
  then show ?thesis by simp
next
  case (Cons x xs)
  assume a: "split c s = [[]]"
  obtain w ws where w: "split c xs = w # ws" using split_nonempty[of c xs] by (cases "split c xs") auto
  from a Cons w show ?thesis by (simp split: if_splits)
qed

lemma split_two_empty: "split c s = [[], []] \<Longrightarrow> s = [c]"
proof (cases s)
  case Nil
  assume "split c s = [[], []]"
  with Nil show ?thesis by simp
next
  case (Cons x xs)
  assume a: "split c s = [[], []]"
  obtain w ws where w: "split c xs = w # ws" using split_nonempty[of c xs] by (cases "split c xs") auto
  show ?thesis
  proof (cases "x = c")
    case True
    with a Cons have "split c xs = [[]]" by simp
    then have "xs = []" by (rule split_single_empty)
    with True Cons show ?thesis by simp
  next
    case False
    with a Cons w show ?thesis by simp
  qed
qed

lemma parse_depth_zero:
  assumes "parse_generator_matches ms = Inr m"
  shows "(depth m = 0) = (ms = ''/'')"
proof
  assume d: "depth m = 0"
  define p where "p = split CHR ''/'' ms"
  define p1 where "p1 = (if hd p = [] then tl p else p)"
  define p2 where "p2 = (if last p1 = [] then butlast p1 else p1)"
  from assms have ne: "p1 \<noteq> []"
    and m: "m = \<lparr>rooted = (hd p = []), elements = p2, depth = length p2, match_string = ms\<rparr>"
    unfolding p2_def p1_def p_def
    by (auto simp: parse_generator_matches_def Let_def split: if_splits)
  from d m have e2: "p2 = []" by simp
  have r: "rooted m" using parse_Inr_props(4)[OF assms] parse_Inr_props(1)[OF assms] d by auto
  with m have h: "hd p = []" by simp
  from e2 ne have lb: "last p1 = []" "butlast p1 = []" by (auto simp: p2_def split: if_splits)
  have "p1 = butlast p1 @ [last p1]" using ne by simp
  with lb have "p1 = [[]]" by simp
  with h have tl: "tl p = [[]]" by (simp add: p1_def)
  have "p \<noteq> []" unfolding p_def by (rule split_nonempty)
  with h tl have "p = [[], []]" by (cases p) auto
  then show "ms = ''/''" unfolding p_def by (rule split_two_empty)
next
  assume "ms = ''/''"
  with assms show "depth m = 0" by (auto simp: parse_generator_matches_def Let_def)
qed


lemma match_hit_Nil:
  assumes "parse_generator_matches ms = Inr m"
  shows "match_hit m [] = (ms = ''/'')"
proof -
  have "match_hit m [] = (depth m = 0)"
    using parse_Inr_props(1)[OF assms] by (auto simp: match_hit_def slice_last_def)
  then show ?thesis using parse_depth_zero[OF assms] by simp
qed

lemma parse_all_Cons:
  assumes "parse_all (s # ss) = Inr tests"
  obtains m ms where "parse_generator_matches s = Inr m" "parse_all ss = Inr ms" "tests = m # ms"
proof -
  from assms obtain m where m: "parse_generator_matches s = Inr m"
    by (cases "parse_generator_matches s") auto
  with assms obtain ms where ms: "parse_all ss = Inr ms"
    by (cases "parse_all ss") auto
  from assms m ms have "tests = m # ms" by simp
  with m ms that show ?thesis by blast
qed

lemma check_loop_Nil:
  "parse_all ss = Inr tests \<Longrightarrow>
   check_loop tests [] it acc = acc @ (if ''/'' \<in> set ss then [(''/'', ''/'', it)] else [])"
proof (induction ss arbitrary: tests)
  case Nil
  then show ?case by simp
next
  case (Cons s ss)
  from Cons.prems obtain m ms where m: "parse_generator_matches s = Inr m"
    and ms: "parse_all ss = Inr ms" and t: "tests = m # ms"
    by (rule parse_all_Cons)
  have hit: "match_hit m [] = (s = ''/'')" by (rule match_hit_Nil[OF m])
  have str: "match_string m = s" by (rule parse_Inr_props(2)[OF m])
  have jp: "joined_path [] = ''/''" by (simp add: joined_path_eq)
  show ?case
  proof (cases "s = ''/''")
    case True
    with hit have "match_hit m []" by simp
    then have "check_loop (m # ms) [] it acc = acc @ [(''/'', s, it)]"
      using str jp by simp
    with True t show ?thesis by simp
  next
    case False
    with hit have "\<not> match_hit m []" by simp
    then have "check_loop (m # ms) [] it acc = check_loop ms [] it acc" by simp
    also have "\<dots> = acc @ (if ''/'' \<in> set ss then [(''/'', ''/'', it)] else [])"
      by (rule Cons.IH[OF ms])
    finally show ?thesis using False t by simp
  qed
qed

lemma parse_all_depth:
  "parse_all ss = Inr tests \<Longrightarrow> ''/'' \<in> set ss \<Longrightarrow> \<exists>m\<in>set tests. depth m = 0"
proof (induction ss arbitrary: tests)
  case Nil
  then show ?case by simp
next
  case (Cons s ss)
  from Cons.prems(1) obtain m ms where m: "parse_generator_matches s = Inr m"
    and ms: "parse_all ss = Inr ms" and t: "tests = m # ms"
    by (rule parse_all_Cons)
  show ?case
  proof (cases "s = ''/''")
    case True
    with parse_depth_zero[OF m] t show ?thesis by simp
  next
    case False
    with Cons.prems(2) have "''/'' \<in> set ss" by simp
    from Cons.IH[OF ms this] t show ?thesis by auto
  qed
qed

lemma build_match_tests_patterns:
  "build_match_tests g = parse_all (patterns g)"
  by (cases g) (simp_all add: build_match_tests_def patterns_def)

lemma check_generator_matches_Nil:
  assumes "build_match_tests g = Inr tests"
    and "path hdl = []" and "match_tests hdl = tests"
    and "match_depth hdl = compute_match_depth tests"
  shows "check_generator_matches hdl =
           hdl\<lparr>matches := matches hdl
                  @ (if ''/'' \<in> set (patterns g) then [(''/'', ''/'', item hdl)] else [])\<rparr>"
proof -
  from assms(1) have pa: "parse_all (patterns g) = Inr tests"
    by (simp add: build_match_tests_patterns)
  show ?thesis
  proof (cases "match_depth hdl > 0")
    case True
    have "''/'' \<notin> set (patterns g)"
    proof
      assume "''/'' \<in> set (patterns g)"
      from parse_all_depth[OF pa this] obtain m where m: "m \<in> set tests" "depth m = 0" by auto
      then have "tests \<noteq> []" by auto
      with True assms(4) have "min_depth 1000000 tests > 0"
        by (simp add: compute_match_depth_def)
      with min_depth_le_mem[OF m(1), of 1000000] m(2) show False by simp
    qed
    with True assms(2) show ?thesis by (simp add: check_generator_matches_def)
  next
    case False
    with assms(2,3) show ?thesis
      by (simp add: check_generator_matches_def check_loop_Nil[OF pa])
  qed
qed

subsection \<open>The handler after its construction, and calls without events\<close>

lemma DictSAXHandler_init_props:
  assumes "DictSAXHandler_init h kw = Ok hdl h0"
  shows "build_match_tests (kw_generator kw) = Inr (match_tests hdl) \<and>
      path hdl = [] \<and> matches hdl = [] \<and> item hdl = next_free h \<and>
      match_depth hdl = compute_match_depth (match_tests hdl) \<and>
      \<not> processing_started hdl \<and> h0 = snd (alloc h (new_dict [] None KNone None [] []))"
proof (cases "build_match_tests (kw_generator kw)")
  case (Inl e)
  define H where "H = snd (alloc h (new_dict [] None KNone None [] []))"
  have al: "alloc h (new_dict [] None KNone None [] []) = (next_free h, H)"
    by (simp add: H_def alloc_def)
  have "DictSAXHandler_init h kw = Raise e H"
    unfolding DictSAXHandler_init_def al Inl by simp
  with assms show ?thesis by simp
next
  case (Inr tests)
  define H where "H = snd (alloc h (new_dict [] None KNone None [] []))"
  have al: "alloc h (new_dict [] None KNone None [] []) = (next_free h, H)"
    by (simp add: H_def alloc_def)
  define R where "R = \<lparr>path = [], stack = [], matches = [], root = next_free h,
      item = next_free h, xml_attribs = kw_xml_attribs kw,
      strip_whitespace = kw_strip_whitespace kw,
      match_tests = tests, match_depth = compute_match_depth tests,
      in_ignore = (compute_match_depth tests > 0),
      cdata_separator = kw_cdata_separator kw,
      need_cdata_separator = False, processing_started = False\<rparr>"
  have "DictSAXHandler_init h kw = Ok R H"
    unfolding DictSAXHandler_init_def al Inr R_def by simp
  with assms have "Ok hdl h0 = Ok R H" by (simp only:)
  then have e: "hdl = R" "h0 = H" by (simp_all only: outcome.inject)
  have f: "match_tests R = tests" "path R = []" "matches R = []" "item R = next_free h"
    "match_depth R = compute_match_depth tests" "\<not> processing_started R"
    by (simp_all add: R_def)
  show ?thesis unfolding e using f Inr by (simp add: H_def)
qed

lemma Parse_no_events:
  "events c = [] \<Longrightarrow> Parse hdl h c = Some (hdl, h, map_option ExpatError (expat_error c))"
  by (simp add: Parse_def)

lemma pop_matches_none: "matches hdl = [] \<Longrightarrow> pop_matches hdl = ([], hdl)"
  by (cases hdl) (simp add: pop_matches_def)

lemma parse_chunks_silent:
  "\<forall>c\<in>set cs. events c = [] \<and> expat_error c = None \<Longrightarrow> matches hdl = [] \<Longrightarrow>
   parse_chunks hdl h cs = Some ([], hdl, h, None)"
proof (induction cs)
  case Nil
  show ?case by simp
next
  case (Cons c cs)
  from Cons.prems(1) have c: "events c = []" "expat_error c = None" by simp_all
  have p: "Parse hdl h c = Some (hdl, h, None)" using Parse_no_events[OF c(1)] c(2) by simp
  from Cons.prems(1) have "\<forall>c\<in>set cs. events c = [] \<and> expat_error c = None" by simp
  from Cons.IH[OF this Cons.prems(2)]
  have r: "parse_chunks hdl h cs = Some ([], hdl, h, None)" .
  have "parse_chunks hdl h (c # cs) =
     (case pop_matches hdl of
        (rv, hd2) \<Rightarrow>
          (case parse_chunks hd2 h cs of
             None \<Rightarrow> None
           | Some (ys, hd3, h3, err) \<Rightarrow> Some (rv @ ys, hd3, h3, err)))"
    by (simp only: parse_chunks.simps p option.case prod.case)
  also have "\<dots> = Some ([], hdl, h, None)"
    by (simp only: pop_matches_none[OF Cons.prems(2)] prod.case r option.case append_Nil)
  finally show ?case .
qed

end
